theory Spec2Isabelle
  imports Main "HOL-Library.Char_ord" "HOL-Library.List_Lexorder"
begin

section \<open>Data model\<close>

text \<open>
  A score entry is the JavaScript object \<^verbatim>\<open>{ rank, username, score }\<close> produced by
  \<^verbatim>\<open>parseScores\<close>; entries of the all-time file carry \<^verbatim>\<open>achievedOn\<close> as well.
  One record covers both: \<open>achievedOn = None\<close> is the absent property. Scores are the
  integers that \<^verbatim>\<open>parseInt\<close> yields (exact as long as they stay below \<open>2^53\<close>).
\<close>

record entry =
  rank :: nat
  username :: string
  score :: int
  achievedOn :: "string option"

text \<open>A period column of the scraped page: \<^verbatim>\<open>{ topAvatar, scores }\<close>.\<close>

record periodBlock =
  topAvatar :: "string option"
  scores :: "entry list"

text \<open>The object \<^verbatim>\<open>parseGameSection\<close> returns for one game.\<close>

record gameData =
  name :: string
  today :: periodBlock
  yesterday :: periodBlock
  highscores :: periodBlock

text \<open>One game of \<^verbatim>\<open>all-time.json\<close>: \<^verbatim>\<open>{ name, topAvatar, scores }\<close>.\<close>

record allTimeGame = periodBlock +
  gameName :: string

text \<open>
  The parsed \<^verbatim>\<open>all-time.json\<close>. \<open>games = None\<close> is an object without a
  \<^verbatim>\<open>games\<close> property.
\<close>

record allTime =
  lastUpdated :: string
  games :: "(string \<rightharpoonup> allTimeGame) option"

text \<open>What \<^verbatim>\<open>fs.readFile\<close> followed by \<^verbatim>\<open>JSON.parse\<close> gives.\<close>

datatype persisted = ReadOrParseFailure | Parsed allTime

datatype error = TypeError

datatype exit = Completed allTime | Exit1

section \<open>JavaScript primitives\<close>

text \<open>
  A JavaScript \<^verbatim>\<open>Map\<close> keeps its keys in insertion order; \<^verbatim>\<open>set\<close> on a present key
  replaces the value in place, on an absent key appends.
\<close>

type_synonym 'v jsMap = "(string \<times> 'v) list"

fun Map_get :: "'v jsMap \<Rightarrow> string \<Rightarrow> 'v option" where
  "Map_get [] k = None"
| "Map_get ((k', v') # m) k = (if k' = k then Some v' else Map_get m k)"

fun Map_set :: "'v jsMap \<Rightarrow> string \<Rightarrow> 'v \<Rightarrow> 'v jsMap" where
  "Map_set [] k v = [(k, v)]"
| "Map_set ((k', v') # m) k v = (if k' = k then (k, v) # m else (k', v') # Map_set m k v)"

definition Map_new :: "(string \<times> 'v) list \<Rightarrow> 'v jsMap" where
  "Map_new kvs = foldl (\<lambda>m (k, v). Map_set m k v) [] kvs"

definition Map_values :: "'v jsMap \<Rightarrow> 'v list" where
  "Map_values m = map snd m"

text \<open>Truthiness of a string-or-null value, and \<^verbatim>\<open>a || b\<close> on such values.\<close>

definition truthy :: "string option \<Rightarrow> bool" where
  "truthy a = (a \<noteq> None \<and> a \<noteq> Some [])"

definition js_or :: "string option \<Rightarrow> string option \<Rightarrow> string option" where
  "js_or a b = (if truthy a then a else b)"

text \<open>
  \<^verbatim>\<open>.sort((a, b) => b.score - a.score)\<close>: a stable sort, descending by score.
\<close>

definition sortByScoreDesc :: "entry list \<Rightarrow> entry list" where
  "sortByScoreDesc xs = sort_key (\<lambda>e. - score e) xs"

text \<open>\<^verbatim>\<open>sortedScores.forEach((s, i) => s.rank = i + 1)\<close>, counting from \<open>i\<close>.\<close>

fun rerankFrom :: "nat \<Rightarrow> entry list \<Rightarrow> entry list" where
  "rerankFrom i [] = []"
| "rerankFrom i (s # ss) = s\<lparr>rank := i + 1\<rparr> # rerankFrom (i + 1) ss"

definition rerank :: "entry list \<Rightarrow> entry list" where
  "rerank ss = rerankFrom 0 ss"

section \<open>The all-time merge (scraper.js, updateAllTimeScores)\<close>

text \<open>The body of both candidate loops: \<^verbatim>\<open>{ ...newScore, achievedOn: date }\<close> is stored
  when the user is new or the new score is strictly greater.\<close>

definition stamp :: "string \<Rightarrow> entry \<Rightarrow> entry" where
  "stamp date newScore = newScore\<lparr>achievedOn := Some date\<rparr>"

definition mergeScore :: "string \<Rightarrow> entry jsMap \<Rightarrow> entry \<Rightarrow> entry jsMap" where
  "mergeScore date existingScoreMap newScore =
     (case Map_get existingScoreMap (username newScore) of
        None \<Rightarrow> Map_set existingScoreMap (username newScore) (stamp date newScore)
      | Some existingScore \<Rightarrow>
          if score newScore > score existingScore
          then Map_set existingScoreMap (username newScore) (stamp date newScore)
          else existingScoreMap)"

definition mergedScoreMap :: "entry list \<Rightarrow> gameData \<Rightarrow> string \<Rightarrow> entry jsMap" where
  "mergedScoreMap existingScores gd date =
     foldl (mergeScore date)
       (foldl (mergeScore date)
          (Map_new (map (\<lambda>s. (username s, s)) existingScores))
          (scores (highscores gd)))
       (scores (today gd))"

definition firstAchievedOn :: "entry list \<Rightarrow> string option" where
  "firstAchievedOn ss = (case ss of [] \<Rightarrow> None | s # _ \<Rightarrow> achievedOn s)"

text \<open>One iteration of the loop over \<^verbatim>\<open>Object.entries(games)\<close>: the value stored at
  \<^verbatim>\<open>allTime.games[gameId]\<close> afterwards, from the value found there before.\<close>

definition mergeGame :: "allTimeGame option \<Rightarrow> gameData \<Rightarrow> string \<Rightarrow> allTimeGame" where
  "mergeGame found gd date =
     (case found of
        None \<Rightarrow>
          \<lparr>topAvatar = topAvatar (highscores gd),
           scores = map (stamp date) (scores (highscores gd)),
           gameName = name gd\<rparr>
      | Some existing \<Rightarrow>
          (let sortedScores =
                 rerank (take 50 (sortByScoreDesc
                   (Map_values (mergedScoreMap (scores existing) gd date))))
           in existing\<lparr>scores := sortedScores,
                topAvatar :=
                  (if firstAchievedOn sortedScores = Some date
                   then js_or (topAvatar (today gd))
                          (js_or (topAvatar (highscores gd)) (topAvatar existing))
                   else topAvatar existing)\<rparr>))"

fun mergeGames ::
  "(string \<rightharpoonup> allTimeGame) \<Rightarrow> (string \<times> gameData) list \<Rightarrow> string \<Rightarrow> (string \<rightharpoonup> allTimeGame)"
where
  "mergeGames gm [] date = gm"
| "mergeGames gm ((gameId, gd) # rest) date =
     mergeGames (gm(gameId \<mapsto> mergeGame (gm gameId) gd date)) rest date"

text \<open>
  \<^verbatim>\<open>updateAllTimeScores\<close>, with the file read made an argument. Only the read and the
  parse are inside the \<^verbatim>\<open>try\<close>; \<^verbatim>\<open>allTime.games[gameId]\<close> on an object without
  \<^verbatim>\<open>games\<close> throws a TypeError in the first iteration of the loop.
\<close>

definition updateAllTimeScores ::
  "persisted \<Rightarrow> (string \<times> gameData) list \<Rightarrow> string \<Rightarrow> error + allTime" where
  "updateAllTimeScores file incoming date =
     (let allTime0 = (case file of
                        ReadOrParseFailure \<Rightarrow> \<lparr>lastUpdated = date, games = Some Map.empty\<rparr>
                      | Parsed a \<Rightarrow> a)
      in case games allTime0 of
           None \<Rightarrow> (if incoming = [] then Inr (allTime0\<lparr>lastUpdated := date\<rparr>)
                     else Inl TypeError)
         | Some gm \<Rightarrow>
             Inr (allTime0\<lparr>games := Some (mergeGames gm incoming date),
                           lastUpdated := date\<rparr>))"

text \<open>The last step of \<^verbatim>\<open>main\<close>: any exception ends the run with \<^verbatim>\<open>process.exit(1)\<close>.\<close>

definition main :: "persisted \<Rightarrow> (string \<times> gameData) list \<Rightarrow> string \<Rightarrow> exit" where
  "main file incoming date =
     (case updateAllTimeScores file incoming date of
        Inl e \<Rightarrow> Exit1
      | Inr a \<Rightarrow> Completed a)"

section \<open>Daily snapshots as the dashboard and the seeding script read them\<close>

text \<open>
  A daily file is read back with optional chaining throughout
  (\<^verbatim>\<open>dayData.games?.[gameId]\<close>, \<^verbatim>\<open>gameData[period]?.scores?.[0]?.username\<close>), so every
  level may be missing: \<open>None\<close> is an absent property. \<open>date\<close> is the file's
  \<^verbatim>\<open>"YYYY-MM-DD"\<close> string.
\<close>

record dayBlock =
  blockAvatar :: "string option"
  blockScores :: "entry list option"

record dayGame =
  dayToday :: "dayBlock option"
  dayYesterday :: "dayBlock option"
  dayHighscores :: "dayBlock option"

record dayData =
  date :: string
  dayGames :: "(string \<rightharpoonup> dayGame) option"

text \<open>The property names \<^verbatim>\<open>'today'\<close>, \<^verbatim>\<open>'yesterday'\<close> and \<^verbatim>\<open>'highscores'\<close>.\<close>

datatype period = Today | Yesterday | Highscores

text \<open>\<^verbatim>\<open>gameData[period]\<close>.\<close>

fun blockOf :: "dayGame \<Rightarrow> period \<Rightarrow> dayBlock option" where
  "blockOf gameData Today = dayToday gameData"
| "blockOf gameData Yesterday = dayYesterday gameData"
| "blockOf gameData Highscores = dayHighscores gameData"

text \<open>\<^verbatim>\<open>dayData.games?.[gameId]\<close>.\<close>

definition gameOf :: "dayData \<Rightarrow> string \<Rightarrow> dayGame option" where
  "gameOf dayData gameId = (case dayGames dayData of None \<Rightarrow> None | Some gs \<Rightarrow> gs gameId)"

text \<open>\<^verbatim>\<open>block?.scores\<close>.\<close>

definition scoresOf :: "dayBlock option \<Rightarrow> entry list option" where
  "scoresOf b = (case b of None \<Rightarrow> None | Some blk \<Rightarrow> blockScores blk)"

definition GAMES :: "string list" where
  "GAMES = [''castle-fireworks'', ''pirates'', ''haunted-mansion'', ''jungle-cruise'']"

section \<open>Avatar lookup (app.js, findAvatarForUser)\<close>

definition periods :: "bool \<Rightarrow> period list" where
  "periods prioritizeHighscores =
     (if prioritizeHighscores then [Highscores, Yesterday, Today]
      else [Yesterday, Today, Highscores])"

text \<open>\<^verbatim>\<open>block?.scores?.[0]?.username\<close>.\<close>

definition firstUsername :: "dayBlock option \<Rightarrow> string option" where
  "firstUsername b =
     (case scoresOf b of None \<Rightarrow> None | Some [] \<Rightarrow> None | Some (e # _) \<Rightarrow> Some (username e))"

text \<open>
  The inner loop over the periods of one day. \<open>Some r\<close> is \<^verbatim>\<open>return r\<close> (\<open>r = None\<close> when
  the block's \<^verbatim>\<open>topAvatar\<close> is null); \<open>None\<close> is falling out of the loop.
\<close>

fun scanPeriods :: "dayGame \<Rightarrow> string \<Rightarrow> period list \<Rightarrow> string option option" where
  "scanPeriods gameData user [] = None"
| "scanPeriods gameData user (p # ps) =
     (if firstUsername (blockOf gameData p) = Some user
      then (case blockOf gameData p of None \<Rightarrow> Some None | Some blk \<Rightarrow> Some (blockAvatar blk))
      else scanPeriods gameData user ps)"

fun scanDays :: "dayData list \<Rightarrow> string \<Rightarrow> string \<Rightarrow> period list \<Rightarrow> string option" where
  "scanDays [] gameId user ps = None"
| "scanDays (dayData # rest) gameId user ps =
     (case gameOf dayData gameId of
        None \<Rightarrow> scanDays rest gameId user ps
      | Some gameData \<Rightarrow>
          (case scanPeriods gameData user ps of
             Some r \<Rightarrow> r
           | None \<Rightarrow> scanDays rest gameId user ps))"

definition findAvatarForUser :: "dayData list \<Rightarrow> string \<Rightarrow> string \<Rightarrow> bool \<Rightarrow> string option" where
  "findAvatarForUser dailyDataArray gameId user prioritizeHighscores =
     scanDays dailyDataArray gameId user (periods prioritizeHighscores)"

section \<open>Aggregation over several days (app.js, aggregateScores)\<close>

text \<open>The object \<^verbatim>\<open>{ username, score, date }\<close> kept per user.\<close>

record best =
  bestUsername :: string
  bestScore :: int
  bestDate :: string

text \<open>
  \<^verbatim>\<open>gameData[scoreType]?.scores || gameData.yesterday?.scores || []\<close>; an array, even an empty
  one, is truthy.
\<close>

definition sourceScores :: "dayGame \<Rightarrow> period \<Rightarrow> entry list" where
  "sourceScores gameData scoreType =
     (case scoresOf (blockOf gameData scoreType) of
        Some ss \<Rightarrow> ss
      | None \<Rightarrow> (case scoresOf (dayYesterday gameData) of Some ss \<Rightarrow> ss | None \<Rightarrow> []))"

definition bestStep :: "string \<Rightarrow> best jsMap \<Rightarrow> entry \<Rightarrow> best jsMap" where
  "bestStep day userBestScores e =
     (case Map_get userBestScores (username e) of
        None \<Rightarrow>
          Map_set userBestScores (username e)
            \<lparr>bestUsername = username e, bestScore = score e, bestDate = day\<rparr>
      | Some existing \<Rightarrow>
          if score e > bestScore existing
          then Map_set userBestScores (username e)
                 \<lparr>bestUsername = username e, bestScore = score e, bestDate = day\<rparr>
          else userBestScores)"

definition bestDay :: "period \<Rightarrow> string \<Rightarrow> best jsMap \<Rightarrow> dayData \<Rightarrow> best jsMap" where
  "bestDay scoreType gameId userBestScores dayData =
     (case gameOf dayData gameId of
        None \<Rightarrow> userBestScores
      | Some gameData \<Rightarrow>
          foldl (bestStep (date dayData)) userBestScores (sourceScores gameData scoreType))"

definition userBestScores :: "dayData list \<Rightarrow> period \<Rightarrow> string \<Rightarrow> best jsMap" where
  "userBestScores dailyDataArray scoreType gameId =
     foldl (bestDay scoreType gameId) [] dailyDataArray"

text \<open>\<^verbatim>\<open>.map((entry, index) => ({ rank: index + 1, username, score }))\<close>, counting from \<open>i\<close>.\<close>

fun rankFrom :: "nat \<Rightarrow> best list \<Rightarrow> entry list" where
  "rankFrom i [] = []"
| "rankFrom i (b # bs) =
     \<lparr>rank = i + 1, username = bestUsername b, score = bestScore b, achievedOn = None\<rparr>
       # rankFrom (i + 1) bs"

definition sortedTop10 :: "best jsMap \<Rightarrow> entry list" where
  "sortedTop10 m = rankFrom 0 (take 10 (sort_key (\<lambda>b. - bestScore b) (Map_values m)))"

definition aggregateGame :: "dayData list \<Rightarrow> period \<Rightarrow> string \<Rightarrow> periodBlock" where
  "aggregateGame dailyDataArray scoreType gameId =
     (let sorted = sortedTop10 (userBestScores dailyDataArray scoreType gameId)
      in \<lparr>topAvatar =
            (case sorted of
               [] \<Rightarrow> None
             | s # _ \<Rightarrow>
                 if username s \<noteq> [] then findAvatarForUser dailyDataArray gameId (username s) False
                 else None),
          scores = sorted\<rparr>)"

definition aggregateScores :: "dayData list \<Rightarrow> period \<Rightarrow> (string \<times> periodBlock) list" where
  "aggregateScores dailyDataArray scoreType =
     map (\<lambda>gameId. (gameId, aggregateGame dailyDataArray scoreType gameId)) GAMES"

section \<open>The month query (app.js, getCurrentMonthDates and getScoresForPeriod)\<close>

text \<open>\<^verbatim>\<open>String(n)\<close> for a non-negative integer, and \<^verbatim>\<open>s.padStart(w, '0')\<close>.\<close>

definition digit :: "nat \<Rightarrow> char" where
  "digit n = char_of (48 + n)"

function decimal :: "nat \<Rightarrow> string" where
  "decimal n = (if n < 10 then [digit n] else decimal (n div 10) @ [digit (n mod 10)])"
  by pat_completeness auto
termination
  by (relation "measure id") auto

declare decimal.simps [simp del]

definition padStart :: "nat \<Rightarrow> string \<Rightarrow> string" where
  "padStart w s = replicate (w - length s) CHR ''0'' @ s"

text \<open>
  \<^verbatim>\<open>new Date(year, month, 0).getDate()\<close> with \<open>month\<close> counted from 1: the number of days of
  that month. The constructor reads a year from 0 to 99 as 1900 + year.
\<close>

definition leapYear :: "nat \<Rightarrow> bool" where
  "leapYear y = (y mod 4 = 0 \<and> (y mod 100 \<noteq> 0 \<or> y mod 400 = 0))"

definition daysInMonth :: "nat \<Rightarrow> nat \<Rightarrow> nat" where
  "daysInMonth y m =
     (if m \<in> {4, 6, 9, 11} then 30
      else if m = 2 then (if leapYear (if y < 100 then 1900 + y else y) then 29 else 28)
      else 31)"

text \<open>
  \<^verbatim>\<open>getCurrentMonthDates\<close>, from the Pacific date of \<^verbatim>\<open>now\<close> given as year, month and
  day. \<open>pacificNow\<close> is its \<^verbatim>\<open>en-CA\<close> rendering \<^verbatim>\<open>YYYY-MM-DD\<close>, with two digits for month
  and day; \<open>year\<close> and \<open>month\<close> are the first two fields of \<^verbatim>\<open>pacificNow.split('-')\<close>.
  Strings compare as JavaScript compares them, character by character.
\<close>

definition formatDate :: "nat \<Rightarrow> nat \<Rightarrow> nat \<Rightarrow> string" where
  "formatDate y m d =
     decimal y @ ''-'' @ padStart 2 (decimal m) @ ''-'' @ padStart 2 (decimal d)"

definition getCurrentMonthDates :: "nat \<Rightarrow> nat \<Rightarrow> nat \<Rightarrow> string list" where
  "getCurrentMonthDates y m d =
     (let pacificNow = formatDate y m d;
          year = decimal y;
          month = padStart 2 (decimal m)
      in filter (\<lambda>dateStr. dateStr \<le> pacificNow)
           (map (\<lambda>day. year @ ''-'' @ month @ ''-'' @ padStart 2 (decimal day))
              [1 ..< Suc (daysInMonth y m)]))"

text \<open>
  \<^verbatim>\<open>loadDailyData\<close>: the cache first, then \<^verbatim>\<open>fetchJSON\<close>, which gives null for a file that
  is not there. \<open>files\<close> maps a date to the content of \<^verbatim>\<open>data/daily/<date>.json\<close>.
  \<^verbatim>\<open>loadMultipleDays\<close> starts all loads at once, so each of them sees the cache as it was
  before the call, and keeps the results that are not null; \<open>cacheAfter\<close> is the cache once
  all of them have finished.
\<close>

definition loadDailyData ::
  "(string \<rightharpoonup> dayData) \<Rightarrow> (string \<rightharpoonup> dayData) \<Rightarrow> string \<Rightarrow> dayData option" where
  "loadDailyData files cache d = (case cache d of Some data \<Rightarrow> Some data | None \<Rightarrow> files d)"

definition cacheAfter ::
  "(string \<rightharpoonup> dayData) \<Rightarrow> (string \<rightharpoonup> dayData) \<Rightarrow> string list \<Rightarrow> (string \<rightharpoonup> dayData)" where
  "cacheAfter files cache dates =
     foldl (\<lambda>c d. case loadDailyData files cache d of None \<Rightarrow> c | Some data \<Rightarrow> c(d \<mapsto> data))
       cache dates"

definition loadMultipleDays ::
  "(string \<rightharpoonup> dayData) \<Rightarrow> (string \<rightharpoonup> dayData) \<Rightarrow> string list \<Rightarrow> dayData list" where
  "loadMultipleDays files cache dates = List.map_filter (loadDailyData files cache) dates"

text \<open>The \<^verbatim>\<open>'month'\<close> case of \<^verbatim>\<open>getScoresForPeriod\<close>; \<open>None\<close> is \<^verbatim>\<open>return null\<close>.\<close>

definition getScoresForPeriod_month ::
  "(string \<rightharpoonup> dayData) \<Rightarrow> (string \<rightharpoonup> dayData) \<Rightarrow> nat \<Rightarrow> nat \<Rightarrow> nat
     \<Rightarrow> (string \<times> periodBlock) list option" where
  "getScoresForPeriod_month files cache y m d =
     (let dates = getCurrentMonthDates y m d;
          dailyData = loadMultipleDays files cache dates
      in if length dailyData = 0 then None else Some (aggregateScores dailyData Yesterday))"

section \<open>The user index (seeding script, seedUsersIndex)\<close>

record appearance =
  appGame :: string
  appRank :: nat
  appDate :: string

record gameStats =
  statBest :: int
  statDate :: "string option"
  statRank :: "nat option"
  allTimeRank :: "nat option"

record user =
  avatar :: "string option"
  lastSeen :: "string option"
  lastAppearance :: "appearance option"
  userGames :: "string \<rightharpoonup> gameStats"

text \<open>
  Lines 71 to 78 of the script. \<^verbatim>\<open>!user.lastSeen\<close> holds for null and for the empty string;
  \<^verbatim>\<open>user.lastAppearance?.rank || 999\<close> is 999 for a missing appearance and for rank 0.
\<close>

definition storedRank :: "user \<Rightarrow> nat" where
  "storedRank u =
     (case lastAppearance u of
        None \<Rightarrow> 999
      | Some a \<Rightarrow> if appRank a = 0 then 999 else appRank a)"

definition updateLastSeen :: "string \<Rightarrow> string \<Rightarrow> nat \<Rightarrow> user \<Rightarrow> user" where
  "updateLastSeen d gameId r u =
     (if \<not> truthy (lastSeen u) \<or> (case lastSeen u of None \<Rightarrow> False | Some ls \<Rightarrow> d > ls)
      then u\<lparr>lastSeen := Some d,
             lastAppearance := Some \<lparr>appGame = gameId, appRank = r, appDate = d\<rparr>\<rparr>
      else if lastSeen u = Some d \<and> r < storedRank u
      then u\<lparr>lastAppearance := Some \<lparr>appGame = gameId, appRank = r, appDate = d\<rparr>\<rparr>
      else u)"

text \<open>
  \<^verbatim>\<open>const users = {}\<close> is a plain object, and \<^verbatim>\<open>users[username]\<close> reads a property of it:
  the record stored under the name, if there is one, and otherwise, for the names below, what
  every object inherits from \<^verbatim>\<open>Object.prototype\<close> (a function, or the prototype itself for
  \<^verbatim>\<open>__proto__\<close>), which is truthy and has no \<^verbatim>\<open>games\<close>.
\<close>

definition inheritedProperties :: "string list" where
  "inheritedProperties =
     [''constructor'', ''__proto__'', ''toString'', ''toLocaleString'', ''valueOf'',
      ''hasOwnProperty'', ''isPrototypeOf'', ''propertyIsEnumerable'',
      ''__defineGetter__'', ''__defineSetter__'', ''__lookupGetter__'', ''__lookupSetter__'']"

datatype property = Own user | Inherited | Undefined

definition lookupUser :: "(string \<rightharpoonup> user) \<Rightarrow> string \<Rightarrow> property" where
  "lookupUser users nm =
     (case users nm of
        Some u \<Rightarrow> Own u
      | None \<Rightarrow> if nm \<in> set inheritedProperties then Inherited else Undefined)"

text \<open>
  A loop whose body may throw: the first exception ends it. \<open>foldlE\<close> passes the exception
  on; \<open>foldlTry\<close> is the loop inside \<^verbatim>\<open>try\<close>, which keeps the state reached.
\<close>

fun foldlE :: "('s \<Rightarrow> 'a \<Rightarrow> error + 's) \<Rightarrow> 's \<Rightarrow> 'a list \<Rightarrow> error + 's" where
  "foldlE f s [] = Inr s"
| "foldlE f s (x # xs) = (case f s x of Inl err \<Rightarrow> Inl err | Inr s' \<Rightarrow> foldlE f s' xs)"

fun foldlTry :: "('s \<Rightarrow> 'a \<Rightarrow> error + 's) \<Rightarrow> 's \<Rightarrow> 'a list \<Rightarrow> 's \<times> error option" where
  "foldlTry f s [] = (s, None)"
| "foldlTry f s (x # xs) =
     (case f s x of Inl err \<Rightarrow> (s, Some err) | Inr s' \<Rightarrow> foldlTry f s' xs)"

text \<open>
  The body of \<^verbatim>\<open>scores.forEach((entry, idx) => ...)\<close> from \<^verbatim>\<open>const user = users[username]\<close>
  on, for a record \<open>u0\<close> of \<^verbatim>\<open>users\<close>: the avatar of a user ranked first, lines 71 to 78, and
  the best score of the game.
\<close>

definition updateUser :: "string \<Rightarrow> string \<Rightarrow> string option \<Rightarrow> entry \<Rightarrow> nat \<Rightarrow> user \<Rightarrow> user" where
  "updateUser d gameId topAv e r u0 =
     (let u1 = (if r = 1 \<and> truthy topAv then u0\<lparr>avatar := topAv\<rparr> else u0);
          u2 = updateLastSeen d gameId r u1;
          s0 = (case userGames u2 gameId of
                  None \<Rightarrow> \<lparr>statBest = 0, statDate = None, statRank = None, allTimeRank = None\<rparr>
                | Some s \<Rightarrow> s);
          s1 = (if score e > statBest s0
                then s0\<lparr>statBest := score e, statDate := Some d, statRank := Some r\<rparr>
                else s0)
      in u2\<lparr>userGames := (userGames u2)(gameId \<mapsto> s1)\<rparr>)"

text \<open>
  The whole body. \<^verbatim>\<open>entry.rank || idx + 1\<close>: a rank of 0 (or none) gives the position. A
  username without a property gets a fresh record first. For a username that finds an
  inherited property, \<^verbatim>\<open>!users[username]\<close> is false, no record is created, \<^verbatim>\<open>user\<close> is the
  inherited object, the assignments go to that object and not to \<^verbatim>\<open>users\<close>, and
  \<^verbatim>\<open>user.games[gameId]\<close> throws a TypeError.
\<close>

definition processEntry ::
  "string \<Rightarrow> string \<Rightarrow> string option \<Rightarrow> (string \<rightharpoonup> user) \<Rightarrow> entry \<times> nat \<Rightarrow>
   error + (string \<rightharpoonup> user)"
where
  "processEntry d gameId topAv users p =
     (let e = fst p; idx = snd p;
          r = (if rank e = 0 then idx + 1 else rank e)
      in case lookupUser users (username e) of
           Undefined \<Rightarrow>
             Inr (users(username e \<mapsto>
               updateUser d gameId topAv e r
                 \<lparr>avatar = None, lastSeen = None, lastAppearance = None,
                  userGames = Map.empty\<rparr>))
         | Own u \<Rightarrow> Inr (users(username e \<mapsto> updateUser d gameId topAv e r u))
         | Inherited \<Rightarrow> Inl TypeError)"

text \<open>
  The loops over the periods of a game, the games of a file, and the sorted files. An
  exception leaves all of them.
\<close>

definition seedPeriod ::
  "string \<Rightarrow> string \<Rightarrow> dayGame \<Rightarrow> (string \<rightharpoonup> user) \<Rightarrow> period \<Rightarrow> error + (string \<rightharpoonup> user)"
where
  "seedPeriod d gameId gameData users p =
     (case blockOf gameData p of
        None \<Rightarrow> Inr users
      | Some periodData \<Rightarrow>
          (case blockScores periodData of
             None \<Rightarrow> Inr users
           | Some ss \<Rightarrow>
               foldlE (processEntry d gameId (blockAvatar periodData)) users
                 (zip ss [0 ..< length ss])))"

definition seedGame ::
  "dayData \<Rightarrow> (string \<rightharpoonup> user) \<Rightarrow> string \<Rightarrow> error + (string \<rightharpoonup> user)" where
  "seedGame dayData users gameId =
     (case gameOf dayData gameId of
        None \<Rightarrow> Inr users
      | Some gameData \<Rightarrow>
          foldlE (seedPeriod (date dayData) gameId gameData) users [Yesterday, Today, Highscores])"

text \<open>
  The second pass: \<^verbatim>\<open>allTime.games?.[gameId]?.scores || []\<close>, and the position in that list
  as \<^verbatim>\<open>allTimeRank\<close> of the users who have the game. It runs inside \<^verbatim>\<open>try\<close>: a file that
  cannot be read or parsed skips the pass, and an exception of the body
  (\<^verbatim>\<open>users[username].games[gameId]\<close> on an inherited property) ends it with the ranks
  assigned so far.
\<close>

definition rankEntry ::
  "string \<Rightarrow> (string \<rightharpoonup> user) \<Rightarrow> entry \<times> nat \<Rightarrow> error + (string \<rightharpoonup> user)" where
  "rankEntry gameId users p =
     (case lookupUser users (username (fst p)) of
        Undefined \<Rightarrow> Inr users
      | Inherited \<Rightarrow> Inl TypeError
      | Own u \<Rightarrow>
          (case userGames u gameId of
             None \<Rightarrow> Inr users
           | Some s \<Rightarrow>
               Inr (users(username (fst p) \<mapsto>
                 u\<lparr>userGames := (userGames u)(gameId \<mapsto> s\<lparr>allTimeRank := Some (snd p + 1)\<rparr>)\<rparr>))))"

definition rankGame ::
  "allTime \<Rightarrow> (string \<rightharpoonup> user) \<Rightarrow> string \<Rightarrow> (string \<rightharpoonup> user) \<times> error option" where
  "rankGame a users gameId =
     (let ss = (case games a of
                  None \<Rightarrow> []
                | Some gm \<Rightarrow> (case gm gameId of None \<Rightarrow> [] | Some g \<Rightarrow> scores g))
      in foldlTry (rankEntry gameId) users (zip ss [0 ..< length ss]))"

fun rankGames ::
  "allTime \<Rightarrow> (string \<rightharpoonup> user) \<Rightarrow> string list \<Rightarrow> (string \<rightharpoonup> user) \<times> error option" where
  "rankGames a users [] = (users, None)"
| "rankGames a users (gameId # rest) =
     (case rankGame a users gameId of
        (users', Some err) \<Rightarrow> (users', Some err)
      | (users', None) \<Rightarrow> rankGames a users' rest)"

text \<open>
  The script: an exception of the first pass rejects the promise, and no file is written;
  otherwise the users are written, with the ranks of the second pass as far as it came.
\<close>

definition seedUsersIndex :: "dayData list \<Rightarrow> persisted \<Rightarrow> error + (string \<rightharpoonup> user)" where
  "seedUsersIndex files allTimeFile =
     (case foldlE (\<lambda>users dayData. foldlE (seedGame dayData) users GAMES) Map.empty files of
        Inl err \<Rightarrow> Inl err
      | Inr users \<Rightarrow>
          (case allTimeFile of
             ReadOrParseFailure \<Rightarrow> Inr users
           | Parsed a \<Rightarrow> Inr (fst (rankGames a users GAMES))))"

section \<open>Notions used in the statements and proofs\<close>

text \<open>
  Every key of the score map is the username of the entry stored under it, and no key occurs
  twice.
\<close>

definition wellKeyed :: "entry jsMap \<Rightarrow> bool" where
  "wellKeyed m = (distinct (map fst m) \<and> (\<forall>(k, v) \<in> set m. username v = k))"

text \<open>
  The key-value pairs from which \<^verbatim>\<open>new Map(existing.scores.map(s =>
  [s.username, s]))\<close> is built.
\<close>

definition keyed :: "entry list \<Rightarrow> entry jsMap" where
  "keyed ss = map (\<lambda>s. (username s, s)) ss"

text \<open>The candidates after both loops, sorted, before truncation.\<close>

definition mergedSorted :: "entry list \<Rightarrow> gameData \<Rightarrow> string \<Rightarrow> entry list" where
  "mergedSorted E gd d = sortByScoreDesc (Map_values (mergedScoreMap E gd d))"

text \<open>
  Entries appended behind a list \<open>B\<close>: their users are not in \<open>B\<close>
  and their scores do not exceed any score of \<open>B\<close>.
\<close>

definition below :: "entry list \<Rightarrow> entry jsMap \<Rightarrow> bool" where
  "below B N = (\<forall>(k, v) \<in> set N. k \<notin> username ` set B \<and> (\<forall>b \<in> set B. score v \<le> score b))"

text \<open>
  A candidate that cannot change a map whose first entries are \<open>B\<close>, other than
  by appending below \<open>B\<close>.
\<close>

definition settled :: "entry list \<Rightarrow> entry \<Rightarrow> bool" where
  "settled B c =
     (case Map_get (keyed B) (username c) of
        Some b \<Rightarrow> score c \<le> score b
      | None \<Rightarrow> \<forall>b \<in> set B. score c \<le> score b)"

text \<open>The invariant of a score list of the all-time record.\<close>

definition topN :: "entry list \<Rightarrow> bool" where
  "topN ss = (length ss \<le> 50 \<and> sorted_wrt (\<lambda>a b. score b \<le> score a) ss \<and>
              map rank ss = [1 ..< Suc (length ss)])"

text \<open>The score list of one game in the outcome of a merge, if there is one.\<close>

definition gameScores :: "error + allTime \<Rightarrow> string \<Rightarrow> entry list option" where
  "gameScores res gameId =
     (case res of
        Inl _ \<Rightarrow> None
      | Inr a \<Rightarrow> (case games a of None \<Rightarrow> None | Some gm \<Rightarrow> map_option scores (gm gameId)))"


text \<open>\<^verbatim>\<open>String.prototype.toLowerCase\<close> on ASCII letters.\<close>

definition toLowerCase :: "string \<Rightarrow> string" where
  "toLowerCase s =
     map (\<lambda>c. if CHR ''A'' \<le> c \<and> c \<le> CHR ''Z'' then char_of (of_char c + (32::nat)) else c) s"

section \<open>Concrete records and scraped days\<close>

definition ex_existing :: allTime where
  "ex_existing =
     \<lparr>lastUpdated = ''2024-03-01'',
      games = Some [''pirates'' \<mapsto>
        \<lparr>topAvatar = Some ''a1.png'',
         scores = [\<lparr>rank = 1, username = ''Ariel'', score = 100, achievedOn = Some ''2024-03-01''\<rparr>],
         gameName = ''Pirates of the Caribbean''\<rparr>]\<rparr>"

definition ex_incoming :: "(string \<times> gameData) list" where
  "ex_incoming =
     [(''pirates'',
       \<lparr>name = ''Pirates of the Caribbean'',
        today = \<lparr>topAvatar = Some ''b2.png'',
                 scores = [\<lparr>rank = 1, username = ''Belle'', score = 120, achievedOn = None\<rparr>,
                           \<lparr>rank = 2, username = ''Ariel'', score = 100, achievedOn = None\<rparr>]\<rparr>,
        yesterday = \<lparr>topAvatar = None, scores = []\<rparr>,
        highscores = \<lparr>topAvatar = Some ''a1.png'',
                      scores = [\<lparr>rank = 1, username = ''Ariel'', score = 100, achievedOn = None\<rparr>,
                                \<lparr>rank = 2, username = ''Cindy'', score = 90, achievedOn = None\<rparr>]\<rparr>\<rparr>)]"

definition ex_merged :: allTime where
  "ex_merged =
     \<lparr>lastUpdated = ''2024-03-02'',
      games = Some [''pirates'' \<mapsto>
        \<lparr>topAvatar = Some ''b2.png'',
         scores = [\<lparr>rank = 1, username = ''Belle'', score = 120, achievedOn = Some ''2024-03-02''\<rparr>,
                   \<lparr>rank = 2, username = ''Ariel'', score = 100, achievedOn = Some ''2024-03-01''\<rparr>,
                   \<lparr>rank = 3, username = ''Cindy'', score = 90, achievedOn = Some ''2024-03-02''\<rparr>],
         gameName = ''Pirates of the Caribbean''\<rparr>]\<rparr>"

definition cx_fresh :: allTime where
  "cx_fresh = \<lparr>lastUpdated = ''2024-03-01'', games = Some Map.empty\<rparr>"

definition cx_seeded :: allTime where
  "cx_seeded =
     \<lparr>lastUpdated = ''2024-03-02'',
      games = Some [''pirates'' \<mapsto>
        \<lparr>topAvatar = Some ''a1.png'',
         scores = [\<lparr>rank = 1, username = ''Ariel'', score = 100, achievedOn = Some ''2024-03-02''\<rparr>,
                   \<lparr>rank = 2, username = ''Cindy'', score = 90, achievedOn = Some ''2024-03-02''\<rparr>],
         gameName = ''Pirates of the Caribbean''\<rparr>]\<rparr>"

definition cx_unsorted :: "(string \<times> gameData) list" where
  "cx_unsorted =
     [(''pirates'',
       \<lparr>name = ''Pirates of the Caribbean'',
        today = \<lparr>topAvatar = None, scores = []\<rparr>,
        yesterday = \<lparr>topAvatar = None, scores = []\<rparr>,
        highscores = \<lparr>topAvatar = Some ''a1.png'',
                      scores = [\<lparr>rank = 1, username = ''Ariel'', score = 90, achievedOn = None\<rparr>,
                                \<lparr>rank = 3, username = ''Cindy'', score = 100, achievedOn = None\<rparr>]\<rparr>\<rparr>)]"



definition cx_case :: "(string \<times> gameData) list" where
  "cx_case =
     [(''pirates'',
       \<lparr>name = ''Pirates of the Caribbean'',
        today = \<lparr>topAvatar = None, scores = []\<rparr>,
        yesterday = \<lparr>topAvatar = None, scores = []\<rparr>,
        highscores = \<lparr>topAvatar = Some ''a1.png'',
                      scores = [\<lparr>rank = 1, username = ''ARIEL'', score = 80, achievedOn = None\<rparr>]\<rparr>\<rparr>)]"


section \<open>Notions used in the statements about the dashboard and the user index\<close>

text \<open>
  The period blocks in the order in which the avatar resolver is specified to look at them:
  snapshot by snapshot, and within a snapshot highscores, yesterday, today when highscores
  are prioritized, and yesterday, today, highscores otherwise. A snapshot without the game
  contributes nothing; a missing block is \<open>None\<close>.
\<close>

definition candidateBlocks :: "dayData list \<Rightarrow> string \<Rightarrow> bool \<Rightarrow> dayBlock option list" where
  "candidateBlocks snapshots gameId prioritizeHighscores =
     concat (map (\<lambda>snapshot.
        case gameOf snapshot gameId of
          None \<Rightarrow> []
        | Some g \<Rightarrow>
            map (blockOf g)
              (if prioritizeHighscores then [Highscores, Yesterday, Today]
               else [Yesterday, Today, Highscores])) snapshots)"

text \<open>
  The rank-1 entry of a period block: the entry whose \<^verbatim>\<open>rank\<close> is 1, if the block has scores
  and one of them has that rank.
\<close>

definition rankOneEntry :: "dayBlock option \<Rightarrow> entry option" where
  "rankOneEntry b =
     (case b of
        None \<Rightarrow> None
      | Some blk \<Rightarrow>
          (case blockScores blk of None \<Rightarrow> None | Some ss \<Rightarrow> find (\<lambda>e. rank e = 1) ss))"

text \<open>
  The avatar resolver as specified: the avatar of the first of these blocks whose rank-1
  entry carries exactly the queried username, and nothing when there is none.
\<close>

definition resolveAvatar :: "dayData list \<Rightarrow> string \<Rightarrow> string \<Rightarrow> bool \<Rightarrow> string option" where
  "resolveAvatar snapshots gameId user prioritizeHighscores =
     (case find (\<lambda>b. map_option username (rankOneEntry b) = Some user)
             (candidateBlocks snapshots gameId prioritizeHighscores) of
        None \<Rightarrow> None
      | Some None \<Rightarrow> None
      | Some (Some blk) \<Rightarrow> blockAvatar blk)"

text \<open>
  A block lists its rank-1 entry first: its scores, if it has any, start with an entry of
  rank 1. \<^verbatim>\<open>parseScores\<close> numbers the list items of a column and leaves out those that
  do not parse, so a scraped block starts with rank 1 when its first item parses.
\<close>

definition rankOneFirst :: "dayBlock option \<Rightarrow> bool" where
  "rankOneFirst b =
     (case b of
        None \<Rightarrow> True
      | Some blk \<Rightarrow>
          (case blockScores blk of None \<Rightarrow> True | Some [] \<Rightarrow> True | Some (e # _) \<Rightarrow> rank e = 1))"

text \<open>
  The record the loop body works on: the stored one, or the fresh one that the body creates
  on first sight.
\<close>

definition userBefore :: "(string \<rightharpoonup> user) \<Rightarrow> string \<Rightarrow> user" where
  "userBefore users nm =
     (case users nm of
        None \<Rightarrow> \<lparr>avatar = None, lastSeen = None, lastAppearance = None, userGames = Map.empty\<rparr>
      | Some u \<Rightarrow> u)"

text \<open>
  Stored dates are not empty and stored ranks are not 0 (an empty string and 0 are falsy in
  JavaScript).
\<close>

definition wellFormedUser :: "user \<Rightarrow> bool" where
  "wellFormedUser u =
     (lastSeen u \<noteq> Some [] \<and>
      (case lastAppearance u of None \<Rightarrow> True | Some a \<Rightarrow> appRank a \<noteq> 0))"

text \<open>
  The score observations of a game, day by day in the supplied order, each with the date of
  its snapshot.
\<close>

definition observations :: "dayData list \<Rightarrow> period \<Rightarrow> string \<Rightarrow> (string \<times> entry) list" where
  "observations snapshots scoreType gameId =
     concat (map (\<lambda>snapshot.
        case gameOf snapshot gameId of
          None \<Rightarrow> []
        | Some g \<Rightarrow> map (Pair (date snapshot)) (sourceScores g scoreType)) snapshots)"

text \<open>
  Best score per user as specified: the greatest score among the user's observations, with
  the date of the first observation that reaches it.
\<close>

definition bestOf :: "(string \<times> entry) list \<Rightarrow> string \<Rightarrow> best option" where
  "bestOf obs user =
     (let seen = filter (\<lambda>ob. username (snd ob) = user) obs
      in if seen = [] then None
         else (let top = Max (set (map (\<lambda>ob. score (snd ob)) seen))
               in map_option (\<lambda>ob. \<lparr>bestUsername = user, bestScore = top, bestDate = fst ob\<rparr>)
                    (find (\<lambda>ob. score (snd ob) = top) seen)))"

text \<open>
  Every key of the map of bests is the username of the record stored under it, and no key
  occurs twice.
\<close>

definition bestKeyed :: "best jsMap \<Rightarrow> bool" where
  "bestKeyed m = (distinct (map fst m) \<and> (\<forall>(k, v) \<in> set m. bestUsername v = k))"

text \<open>The bests after the sort, before truncation.\<close>

definition bestSorted :: "dayData list \<Rightarrow> period \<Rightarrow> string \<Rightarrow> best list" where
  "bestSorted snapshots scoreType gameId =
     sort_key (\<lambda>b. - bestScore b) (Map_values (userBestScores snapshots scoreType gameId))"

section \<open>Concrete snapshots and users\<close>

definition ex_day :: "string \<Rightarrow> entry list \<Rightarrow> dayData" where
  "ex_day d ss =
     \<lparr>date = d,
      dayGames = Some [''pirates'' \<mapsto>
        \<lparr>dayToday = Some \<lparr>blockAvatar = None, blockScores = Some []\<rparr>,
         dayYesterday = Some \<lparr>blockAvatar = Some ''a1.png'', blockScores = Some ss\<rparr>,
         dayHighscores = Some \<lparr>blockAvatar = None, blockScores = Some []\<rparr>\<rparr>]\<rparr>"

definition ex_days :: "dayData list" where
  "ex_days =
     [ex_day ''2024-03-01'' [\<lparr>rank = 1, username = ''Ariel'', score = 100, achievedOn = None\<rparr>],
      ex_day ''2024-03-02'' [\<lparr>rank = 1, username = ''Ariel'', score = 250, achievedOn = None\<rparr>],
      ex_day ''2024-03-03'' [\<lparr>rank = 1, username = ''Belle'', score = 250, achievedOn = None\<rparr>,
                             \<lparr>rank = 2, username = ''Ariel'', score = 180, achievedOn = None\<rparr>]]"

definition cx_files :: "string \<rightharpoonup> dayData" where
  "cx_files = [''2024-03-02'' \<mapsto>
     ex_day ''2024-03-02'' [\<lparr>rank = 1, username = ''Ariel'', score = 100, achievedOn = None\<rparr>]]"

definition ex_dayA :: dayData where
  "ex_dayA =
     \<lparr>date = ''2024-03-02'',
      dayGames = Some [''pirates'' \<mapsto>
        \<lparr>dayToday = Some \<lparr>blockAvatar = None, blockScores = Some []\<rparr>,
         dayYesterday = None,
         dayHighscores = Some \<lparr>blockAvatar = Some ''z.png'',
           blockScores = Some [\<lparr>rank = 1, username = ''Belle'', score = 950, achievedOn = None\<rparr>,
                               \<lparr>rank = 2, username = ''Ariel'', score = 900, achievedOn = None\<rparr>]\<rparr>\<rparr>]\<rparr>"

definition ex_dayB :: dayData where
  "ex_dayB =
     \<lparr>date = ''2024-03-01'',
      dayGames = Some [''pirates'' \<mapsto>
        \<lparr>dayToday = Some \<lparr>blockAvatar = None, blockScores = Some []\<rparr>,
         dayYesterday = Some \<lparr>blockAvatar = Some ''y.png'',
           blockScores = Some [\<lparr>rank = 1, username = ''Ariel'', score = 300, achievedOn = None\<rparr>]\<rparr>,
         dayHighscores = Some \<lparr>blockAvatar = Some ''x.png'',
           blockScores = Some [\<lparr>rank = 1, username = ''Ariel'', score = 900, achievedOn = None\<rparr>]\<rparr>\<rparr>]\<rparr>"


definition cx_gapDay :: dayData where
  "cx_gapDay =
     \<lparr>date = ''2024-03-01'',
      dayGames = Some [''pirates'' \<mapsto>
        \<lparr>dayToday = Some \<lparr>blockAvatar = None, blockScores = Some []\<rparr>,
         dayYesterday = Some \<lparr>blockAvatar = Some ''w.png'',
           blockScores = Some [\<lparr>rank = 2, username = ''Ariel'', score = 300, achievedOn = None\<rparr>]\<rparr>,
         dayHighscores = Some \<lparr>blockAvatar = None, blockScores = Some []\<rparr>\<rparr>]\<rparr>"

section \<open>The score map\<close>

lemma Map_get_set: "Map_get (Map_set m k v) k' = (if k' = k then Some v else Map_get m k')"
  by (induction m) auto

lemma keys_Map_set:
  "map fst (Map_set m k v) = (if k \<in> fst ` set m then map fst m else map fst m @ [k])"
  by (induction m) (force split: if_splits)+

lemma Map_get_None: "Map_get m k = None \<longleftrightarrow> k \<notin> fst ` set m"
  by (induction m) (force split: if_splits)+

lemma Map_get_Some_mem: "Map_get m k = Some v \<Longrightarrow> (k, v) \<in> set m"
  by (induction m) (auto split: if_splits)

lemma Map_get_distinct: "distinct (map fst m) \<Longrightarrow> (k, v) \<in> set m \<Longrightarrow> Map_get m k = Some v"
  by (induction m) (auto simp: rev_image_eqI)

lemma set_Map_set: "set (Map_set m k v) \<subseteq> insert (k, v) (set m)"
  by (induction m) (auto split: if_splits)

lemma Map_set_absent: "k \<notin> fst ` set m \<Longrightarrow> Map_set m k v = m @ [(k, v)]"
  by (induction m) auto

lemma Map_set_append: "k \<notin> fst ` set xs \<Longrightarrow> Map_set (xs @ ys) k v = xs @ Map_set ys k v"
  by (induction xs) auto

lemma Map_get_append:
  "Map_get (xs @ ys) k = (case Map_get xs k of None \<Rightarrow> Map_get ys k | Some v \<Rightarrow> Some v)"
  by (induction xs) auto

lemma distinct_Map_set: "distinct (map fst m) \<Longrightarrow> distinct (map fst (Map_set m k v))"
  by (simp add: keys_Map_set)

lemma wellKeyed_Map_set:
  "wellKeyed m \<Longrightarrow> username v = k \<Longrightarrow> wellKeyed (Map_set m k v)"
  unfolding wellKeyed_def using set_Map_set [of m k v] by (auto simp: distinct_Map_set)

lemma wellKeyed_foldl_set:
  "wellKeyed acc \<Longrightarrow>
   wellKeyed (foldl (\<lambda>m (k, v). Map_set m k v) acc (map (\<lambda>s. (username s, s)) ss))"
  by (induction ss arbitrary: acc) (auto simp: wellKeyed_Map_set)

lemma wellKeyed_Map_new: "wellKeyed (Map_new (map (\<lambda>s. (username s, s)) ss))"
  unfolding Map_new_def by (rule wellKeyed_foldl_set) (simp add: wellKeyed_def)

lemma username_stamp [simp]: "username (stamp d c) = username c"
  and score_stamp [simp]: "score (stamp d c) = score c"
  and achievedOn_stamp [simp]: "achievedOn (stamp d c) = Some d"
  by (simp_all add: stamp_def)

lemma wellKeyed_mergeScore: "wellKeyed m \<Longrightarrow> wellKeyed (mergeScore d m c)"
  by (auto simp: mergeScore_def wellKeyed_Map_set split: option.splits)

lemma wellKeyed_foldl_mergeScore: "wellKeyed m \<Longrightarrow> wellKeyed (foldl (mergeScore d) m cs)"
  by (induction cs arbitrary: m) (auto simp: wellKeyed_mergeScore)

lemma mergeScore_mono:
  "Map_get m u = Some e \<Longrightarrow> \<exists>e'. Map_get (mergeScore d m c) u = Some e' \<and> score e \<le> score e'"
  by (auto simp: mergeScore_def Map_get_set split: option.splits)

lemma mergeScore_stored:
  "\<exists>e. Map_get (mergeScore d m c) (username c) = Some e \<and> score c \<le> score e"
  by (auto simp: mergeScore_def Map_get_set split: option.splits)

lemma foldl_mergeScore_mono:
  "Map_get m u = Some e \<Longrightarrow>
   \<exists>e'. Map_get (foldl (mergeScore d) m cs) u = Some e' \<and> score e \<le> score e'"
proof (induction cs arbitrary: m e)
  case Nil
  then show ?case by simp
next
  case (Cons c cs)
  from mergeScore_mono [OF Cons.prems, of d c]
  obtain e1 where e1: "Map_get (mergeScore d m c) u = Some e1" "score e \<le> score e1" by blast
  from Cons.IH [OF e1(1)] e1(2) show ?case by fastforce
qed

lemma foldl_mergeScore_stored:
  "c \<in> set cs \<Longrightarrow>
   \<exists>e. Map_get (foldl (mergeScore d) m cs) (username c) = Some e \<and> score c \<le> score e"
proof (induction cs arbitrary: m)
  case Nil
  then show ?case by simp
next
  case (Cons a cs)
  show ?case
  proof (cases "c \<in> set cs")
    case True
    from Cons.IH [OF True] show ?thesis by simp
  next
    case False
    with Cons.prems have ac: "a = c" by simp
    obtain e1 where e1: "Map_get (mergeScore d m c) (username c) = Some e1" "score c \<le> score e1"
      using mergeScore_stored by blast
    from foldl_mergeScore_mono [OF e1(1), of d cs] e1(2) ac show ?thesis by fastforce
  qed
qed

lemma foldl_Map_set_distinct:
  "distinct (map fst (acc @ kvs)) \<Longrightarrow> foldl (\<lambda>m (k, v). Map_set m k v) acc kvs = acc @ kvs"
proof (induction kvs arbitrary: acc)
  case Nil
  then show ?case by simp
next
  case (Cons kv kvs)
  obtain k v where kv: "kv = (k, v)" by (cases kv)
  from Cons.prems kv have "k \<notin> fst ` set acc" by auto
  then have "Map_set acc k v = acc @ [(k, v)]" by (rule Map_set_absent)
  moreover from Cons.prems kv have "distinct (map fst ((acc @ [(k, v)]) @ kvs))" by simp
  ultimately show ?case using Cons.IH [of "acc @ [(k, v)]"] kv by simp
qed

lemma Map_new_keyed: "distinct (map username ss) \<Longrightarrow> Map_new (keyed ss) = keyed ss"
  unfolding Map_new_def
  using foldl_Map_set_distinct [of "[]" "keyed ss"] by (simp add: keyed_def comp_def)

lemma keys_keyed [simp]: "map fst (keyed ss) = map username ss"
  by (simp add: keyed_def comp_def)

lemma keyed_keys_set: "fst ` set (keyed ss) = username ` set ss"
  by (induction ss) (simp_all add: keyed_def)

lemma values_keyed [simp]: "map snd (keyed ss) = ss"
  by (simp add: keyed_def comp_def)

lemma values_wellKeyed: "wellKeyed m \<Longrightarrow> map username (map snd m) = map fst m"
  by (induction m) (auto simp: wellKeyed_def)

lemma mergeScore_settled:
  assumes "settled B c" "below B N"
  shows "\<exists>N'. mergeScore d (keyed B @ N) c = keyed B @ N' \<and> below B N' \<and>
           (username c \<in> username ` set B \<longrightarrow> N' = N)"
proof (cases "Map_get (keyed B) (username c)")
  case (Some b)
  with assms(1) have "score c \<le> score b" by (simp add: settled_def)
  with Some have "mergeScore d (keyed B @ N) c = keyed B @ N"
    by (simp add: mergeScore_def Map_get_append)
  with assms(2) show ?thesis by blast
next
  case None
  then have notin: "username c \<notin> fst ` set (keyed B)" by (simp add: Map_get_None)
  then have notinB: "username c \<notin> username ` set B"
    by (simp add: keyed_keys_set)
  from None assms(1) have bound: "\<forall>b \<in> set B. score c \<le> score b" by (simp add: settled_def)
  have new: "below B (Map_set N (username c) (stamp d c))"
    unfolding below_def
  proof (clarify, rule conjI)
    fix k v assume kv: "(k, v) \<in> set (Map_set N (username c) (stamp d c))"
    with set_Map_set [of N "username c" "stamp d c"]
    consider "k = username c" "v = stamp d c" | "(k, v) \<in> set N" by auto
    then show "k \<notin> username ` set B"
      using notinB assms(2) unfolding below_def by cases auto
    from kv set_Map_set [of N "username c" "stamp d c"]
    consider "k = username c" "v = stamp d c" | "(k, v) \<in> set N" by auto
    then show "\<forall>b \<in> set B. score v \<le> score b"
      using bound assms(2) unfolding below_def by cases auto
  qed
  show ?thesis
  proof (cases "Map_get N (username c)")
    case NoneN: None
    with None have "mergeScore d (keyed B @ N) c = keyed B @ Map_set N (username c) (stamp d c)"
      by (simp add: mergeScore_def Map_get_append Map_set_append [OF notin])
    with new notinB show ?thesis by blast
  next
    case (Some e)
    with None have "mergeScore d (keyed B @ N) c =
        (if score c > score e then keyed B @ Map_set N (username c) (stamp d c) else keyed B @ N)"
      by (simp add: mergeScore_def Map_get_append Map_set_append [OF notin])
    with new notinB assms(2) show ?thesis by (cases "score c > score e") auto
  qed
qed

lemma foldl_mergeScore_settled:
  assumes "\<forall>c \<in> set cs. settled B c" "below B N"
  shows "\<exists>N'. foldl (mergeScore d) (keyed B @ N) cs = keyed B @ N' \<and> below B N' \<and>
           ((\<forall>c \<in> set cs. username c \<in> username ` set B) \<longrightarrow> N' = N)"
  using assms
proof (induction cs arbitrary: N)
  case Nil
  then show ?case by simp
next
  case (Cons c cs)
  from Cons.prems have sc: "settled B c" and rest: "\<forall>c \<in> set cs. settled B c" by simp_all
  from mergeScore_settled [OF sc Cons.prems(2), of d]
  obtain N1 where N1: "mergeScore d (keyed B @ N) c = keyed B @ N1" "below B N1"
      "username c \<in> username ` set B \<longrightarrow> N1 = N" by blast
  from Cons.IH [OF rest N1(2)]
  obtain N2 where N2: "foldl (mergeScore d) (keyed B @ N1) cs = keyed B @ N2" "below B N2"
      "(\<forall>c \<in> set cs. username c \<in> username ` set B) \<longrightarrow> N2 = N1" by blast
  from N1 N2 show ?case by auto
qed

lemma sort_key_append_sorted:
  fixes f :: "'a \<Rightarrow> 'b::linorder"
  assumes "sorted (map f xs)" "\<forall>x \<in> set xs. \<forall>y \<in> set ys. f x \<le> f y"
  shows "sort_key f (xs @ ys) = xs @ sort_key f ys"
  using assms
proof (induction xs)
  case Nil
  then show ?case by simp
next
  case (Cons x xs)
  then have IH: "sort_key f (xs @ ys) = xs @ sort_key f ys" by simp
  from Cons.prems have "\<forall>z \<in> set (xs @ sort_key f ys). f x \<le> f z" by auto
  then have "insort_key f x (xs @ sort_key f ys) = x # xs @ sort_key f ys"
    by (rule insort_is_Cons)
  with IH show ?case by simp
qed

lemma rerankFrom_length [simp]: "length (rerankFrom i ss) = length ss"
  by (induction ss arbitrary: i) auto

lemma rerankFrom_username [simp]: "map username (rerankFrom i ss) = map username ss"
  by (induction ss arbitrary: i) auto

lemma rerankFrom_score [simp]: "map score (rerankFrom i ss) = map score ss"
  by (induction ss arbitrary: i) auto

lemma rerankFrom_achievedOn [simp]: "map achievedOn (rerankFrom i ss) = map achievedOn ss"
  by (induction ss arbitrary: i) auto

lemma rerankFrom_rank: "map rank (rerankFrom i ss) = [Suc i ..< Suc i + length ss]"
  by (induction ss arbitrary: i) (auto simp: upt_rec)

lemma rerankFrom_idem: "rerankFrom i (rerankFrom i ss) = rerankFrom i ss"
  by (induction ss arbitrary: i) auto

lemma rerankFrom_mem:
  "b \<in> set (rerankFrom i ss) \<Longrightarrow>
   \<exists>e \<in> set ss. username b = username e \<and> score b = score e \<and> achievedOn b = achievedOn e"
proof (induction ss arbitrary: i)
  case Nil
  then show ?case by simp
next
  case (Cons s ss)
  from Cons.prems have "b = s\<lparr>rank := i + 1\<rparr> \<or> b \<in> set (rerankFrom (i + 1) ss)" by simp
  then show ?case
  proof
    assume "b = s\<lparr>rank := i + 1\<rparr>"
    then have "username b = username s \<and> score b = score s \<and> achievedOn b = achievedOn s"
      by simp
    then show ?thesis by simp
  next
    assume "b \<in> set (rerankFrom (i + 1) ss)"
    from Cons.IH [OF this] show ?thesis by auto
  qed
qed

lemma mergedScoreMap_foldl:
  "mergedScoreMap E gd d =
     foldl (mergeScore d) (Map_new (keyed E)) (scores (highscores gd) @ scores (today gd))"
  by (simp add: mergedScoreMap_def keyed_def)

lemma wellKeyed_mergedScoreMap: "wellKeyed (mergedScoreMap E gd d)"
  unfolding mergedScoreMap_foldl keyed_def
  by (intro wellKeyed_foldl_mergeScore wellKeyed_Map_new)

lemma distinct_map_sort_key: "distinct (map f (sort_key g xs)) = distinct (map f xs)"
  by (simp add: distinct_map)

lemma mergedSorted_distinct: "distinct (map username (mergedSorted E gd d))"
proof -
  have wk: "wellKeyed (mergedScoreMap E gd d)" by (rule wellKeyed_mergedScoreMap)
  then have "distinct (map username (Map_values (mergedScoreMap E gd d)))"
    unfolding Map_values_def values_wellKeyed [OF wk] by (simp add: wellKeyed_def)
  then show ?thesis
    by (simp add: mergedSorted_def sortByScoreDesc_def distinct_map_sort_key)
qed

lemma mergedSorted_sorted: "sorted (map (\<lambda>e. - score e) (mergedSorted E gd d))"
  by (simp add: mergedSorted_def sortByScoreDesc_def)

lemma mergedSorted_covers:
  assumes "c \<in> set (scores (highscores gd) @ scores (today gd))"
  shows "\<exists>e \<in> set (mergedSorted E gd d). username e = username c \<and> score c \<le> score e"
proof -
  from foldl_mergeScore_stored [OF assms, of d "Map_new (keyed E)"]
  obtain e where e: "Map_get (mergedScoreMap E gd d) (username c) = Some e" "score c \<le> score e"
    by (auto simp: mergedScoreMap_foldl)
  from e(1) have mem: "(username c, e) \<in> set (mergedScoreMap E gd d)" by (rule Map_get_Some_mem)
  with wellKeyed_mergedScoreMap [of E gd d] have "username e = username c"
    by (auto simp: wellKeyed_def)
  moreover from mem have "e \<in> set (mergedSorted E gd d)"
    by (force simp: mergedSorted_def sortByScoreDesc_def Map_values_def)
  ultimately show ?thesis using e(2) by blast
qed

lemma mergeGame_scores:
  "scores (mergeGame (Some G) gd d) = rerank (take 50 (mergedSorted (scores G) gd d))"
  by (simp add: mergeGame_def mergedSorted_def Let_def)

lemma top_settled:
  assumes dist: "distinct (map username S)"
    and srt: "sorted (map (\<lambda>e. - score e) S)"
    and cov: "\<exists>e \<in> set S. username e = username c \<and> score c \<le> score e"
  shows "settled (rerank (take n S)) c"
    and "length (rerank (take n S)) < n \<Longrightarrow> username c \<in> username ` set (rerank (take n S))"
proof -
  let ?B = "rerank (take n S)"
  from cov obtain e where e: "e \<in> set S" "username e = username c" "score c \<le> score e" by blast
  from dist have inj: "inj_on username (set S)" by (simp add: distinct_map)
  have "map username ?B = map username (take n S)" by (simp add: rerank_def)
  then have "set (map username ?B) = set (map username (take n S))" by (rule arg_cong)
  then have names: "username ` set ?B = username ` set (take n S)" by (simp only: list.set_map)
  have origin: "\<exists>e' \<in> set (take n S). username b = username e' \<and> score b = score e'"
    if "b \<in> set ?B" for b
  proof -
    from that have "b \<in> set (rerankFrom 0 (take n S))" by (simp only: rerank_def)
    from rerankFrom_mem [OF this] show ?thesis by blast
  qed
  show "settled ?B c"
  proof (cases "Map_get (keyed ?B) (username c)")
    case (Some b)
    then have "(username c, b) \<in> set (keyed ?B)" by (rule Map_get_Some_mem)
    then have b: "b \<in> set ?B" "username b = username c" by (auto simp: keyed_def)
    from origin [OF b(1)] obtain e' where e': "e' \<in> set (take n S)"
      "username b = username e'" "score b = score e'" by blast
    from e'(1) have "e' \<in> set S" by (rule in_set_takeD)
    moreover from e(2) b(2) e'(2) have "username e' = username e" by simp
    ultimately have "e' = e" using inj e(1) by (simp add: inj_on_def)
    with e'(3) e(3) Some show ?thesis by (simp add: settled_def)
  next
    case None
    then have "username c \<notin> fst ` set (keyed ?B)" by (simp add: Map_get_None)
    then have "username c \<notin> username ` set ?B" by (simp add: keyed_keys_set)
    with names have "username e \<notin> username ` set (take n S)" unfolding e(2) by blast
    then have "e \<notin> set (take n S)" by blast
    moreover have "set S = set (take n S) \<union> set (drop n S)"
      using set_append [of "take n S" "drop n S"] by (simp only: append_take_drop_id)
    ultimately have ed: "e \<in> set (drop n S)" using e(1) by blast
    have "score c \<le> score b" if "b \<in> set ?B" for b
    proof -
      from origin [OF that] obtain e' where e': "e' \<in> set (take n S)" "score b = score e'" by blast
      from srt have "sorted (map (\<lambda>e. - score e) (take n S @ drop n S))" by simp
      with e'(1) ed have "- score e' \<le> - score e"
        unfolding map_append sorted_append by auto
      with e'(2) e(3) show ?thesis by simp
    qed
    with None show ?thesis by (simp add: settled_def)
  qed
  show "username c \<in> username ` set ?B" if "length ?B < n"
  proof -
    from that have "length (take n S) < n" by (simp add: rerank_def)
    then have "take n S = S" by simp
    with e(1) have "username e \<in> username ` set (take n S)" by simp
    then show ?thesis unfolding names e(2) .
  qed
qed

lemma neg_scores:
  assumes "map score xs = map score ys"
  shows "map (\<lambda>e. - score e) xs = map (\<lambda>e. - score e) ys"
proof -
  have "map uminus (map score xs) = map uminus (map score ys)" by (simp only: assms)
  then show ?thesis by (simp only: map_map comp_def)
qed

lemma remerge_scores:
  fixes E gd d
  defines "B \<equiv> rerank (take 50 (mergedSorted E gd d))"
  shows "rerank (take 50 (mergedSorted B gd d)) = B"
proof -
  let ?S = "mergedSorted E gd d"
  let ?cs = "scores (highscores gd) @ scores (today gd)"
  have distB: "distinct (map username B)"
  proof -
    have "map username B = take 50 (map username ?S)"
      unfolding B_def rerank_def rerankFrom_username by (rule take_map [symmetric])
    with mergedSorted_distinct [of E gd d] show ?thesis by (simp only: distinct_take)
  qed
  have sortedB: "sorted (map (\<lambda>e. - score e) B)"
  proof -
    have "map score B = map score (take 50 ?S)"
      unfolding B_def rerank_def by (rule rerankFrom_score)
    then have "map (\<lambda>e. - score e) B = map (\<lambda>e. - score e) (take 50 ?S)"
      by (rule neg_scores)
    also have "\<dots> = take 50 (map (\<lambda>e. - score e) ?S)" by (rule take_map [symmetric])
    finally show ?thesis using mergedSorted_sorted [of E gd d] by (simp only: sorted_wrt_take)
  qed
  have lenB: "length B \<le> 50" by (simp add: B_def rerank_def)
  have settledB: "\<forall>c \<in> set ?cs. settled B c"
    unfolding B_def
    using top_settled(1) [OF mergedSorted_distinct mergedSorted_sorted mergedSorted_covers]
    by blast
  have fullB: "length B < 50 \<Longrightarrow> \<forall>c \<in> set ?cs. username c \<in> username ` set B"
    unfolding B_def
    using top_settled(2) [OF mergedSorted_distinct mergedSorted_sorted mergedSorted_covers]
    by blast
  have "below B []" by (simp add: below_def)
  from foldl_mergeScore_settled [OF settledB this, of d]
  obtain N where N: "foldl (mergeScore d) (keyed B) ?cs = keyed B @ N" "below B N"
    "(\<forall>c \<in> set ?cs. username c \<in> username ` set B) \<longrightarrow> N = []" by auto
  have map2: "mergedScoreMap B gd d = keyed B @ N"
    using N(1) by (simp add: mergedScoreMap_foldl Map_new_keyed [OF distB])
  have "\<forall>x \<in> set B. \<forall>y \<in> set (map snd N). - score x \<le> - score y"
    using N(2) by (fastforce simp: below_def)
  from sort_key_append_sorted [OF sortedB this]
  have sorted2: "mergedSorted B gd d = B @ sort_key (\<lambda>e. - score e) (map snd N)"
    by (simp add: mergedSorted_def sortByScoreDesc_def Map_values_def map2)
  have "take 50 (mergedSorted B gd d) = B"
  proof (cases "length B < 50")
    case True
    with fullB N(3) have "N = []" by blast
    with sorted2 lenB show ?thesis by simp
  next
    case False
    with lenB have "length B = 50" by simp
    with sorted2 show ?thesis by simp
  qed
  moreover have "rerank B = B" by (simp add: B_def rerank_def rerankFrom_idem)
  ultimately show ?thesis by simp
qed

lemma js_or_absorb: "js_or t (js_or h (js_or t (js_or h a))) = js_or t (js_or h a)"
  by (simp add: js_or_def)

lemma mergeGame_topAvatar:
  "topAvatar (mergeGame (Some G) gd d) =
     (if firstAchievedOn (scores (mergeGame (Some G) gd d)) = Some d
      then js_or (topAvatar (today gd)) (js_or (topAvatar (highscores gd)) (topAvatar G))
      else topAvatar G)"
  by (simp add: mergeGame_def Let_def)

lemma mergeGame_gameName: "gameName (mergeGame (Some G) gd d) = gameName G"
  by (simp add: mergeGame_def Let_def)

lemma mergeGame_more: "allTimeGame.more (mergeGame (Some G) gd d) = allTimeGame.more G"
  by (simp add: mergeGame_def Let_def)

lemma mergeGame_idem:
  "mergeGame (Some (mergeGame (Some G) gd d)) gd d = mergeGame (Some G) gd d"
proof -
  define G1 where "G1 = mergeGame (Some G) gd d"
  have sc: "scores (mergeGame (Some G1) gd d) = scores G1"
    unfolding G1_def mergeGame_scores by (rule remerge_scores)
  have ta: "topAvatar (mergeGame (Some G1) gd d) = topAvatar G1"
    unfolding mergeGame_topAvatar [of G1] sc
    unfolding G1_def mergeGame_topAvatar [of G] by (simp add: js_or_absorb)
  have nm: "gameName (mergeGame (Some G1) gd d) = gameName G1"
    by (rule mergeGame_gameName)
  have mr: "allTimeGame.more (mergeGame (Some G1) gd d) = allTimeGame.more G1"
    by (rule mergeGame_more)
  have "mergeGame (Some G1) gd d = G1"
    by (rule allTimeGame.equality) (simp_all add: sc ta nm mr)
  then show ?thesis by (simp add: G1_def)
qed






lemma sorted_neg_scores:
  "sorted (map (\<lambda>e. - score e) ss) = sorted_wrt (\<lambda>a b. score b \<le> score a) ss"
  by (simp add: sorted_map)

lemma mergeGame_topN: "topN (scores (mergeGame (Some G) gd d))"
proof -
  let ?S = "mergedSorted (scores G) gd d"
  let ?B = "rerank (take 50 ?S)"
  have len: "length ?B \<le> 50" by (simp add: rerank_def)
  have "map score ?B = map score (take 50 ?S)"
    unfolding rerank_def by (rule rerankFrom_score)
  then have "map (\<lambda>e. - score e) ?B = map (\<lambda>e. - score e) (take 50 ?S)" by (rule neg_scores)
  also have "\<dots> = take 50 (map (\<lambda>e. - score e) ?S)" by (rule take_map [symmetric])
  finally have "sorted (map (\<lambda>e. - score e) ?B)"
    using mergedSorted_sorted [of "scores G" gd d] by (simp only: sorted_wrt_take)
  then have srt: "sorted_wrt (\<lambda>a b. score b \<le> score a) ?B" by (simp only: sorted_neg_scores)
  have rk: "map rank ?B = [1 ..< Suc (length ?B)]"
    unfolding rerank_def using rerankFrom_rank [of 0 "take 50 ?S"] by simp
  from len srt rk show ?thesis unfolding mergeGame_scores topN_def by blast
qed

lemma mergeGame_distinct: "distinct (map username (scores (mergeGame (Some G) gd d)))"
proof -
  let ?S = "mergedSorted (scores G) gd d"
  have "map username (rerank (take 50 ?S)) = take 50 (map username ?S)"
    unfolding rerank_def rerankFrom_username by (rule take_map [symmetric])
  with mergedSorted_distinct [of "scores G" gd d] show ?thesis
    unfolding mergeGame_scores by (simp only: distinct_take)
qed







lemma mergeGames_lookup:
  "distinct (map fst D) \<Longrightarrow>
   mergeGames gm D d g =
     (case map_of D g of None \<Rightarrow> gm g | Some gd \<Rightarrow> Some (mergeGame (gm g) gd d))"
proof (induction D arbitrary: gm)
  case Nil
  then show ?case by simp
next
  case (Cons p D)
  obtain k gd where p: "p = (k, gd)" by (cases p)
  from Cons.prems p have k: "k \<notin> fst ` set D" and dist: "distinct (map fst D)" by auto
  from k have none: "map_of D k = None" by (simp add: map_of_eq_None_iff)
  define gm' where "gm' = gm(k \<mapsto> mergeGame (gm k) gd d)"
  have IH: "mergeGames gm' D d g =
      (case map_of D g of None \<Rightarrow> gm' g | Some gd' \<Rightarrow> Some (mergeGame (gm' g) gd' d))"
    by (rule Cons.IH [OF dist])
  have unfold: "mergeGames gm (p # D) d g = mergeGames gm' D d g"
    by (simp add: p gm'_def)
  show ?case
  proof (cases "g = k")
    case True
    with none IH have "mergeGames gm' D d g = Some (mergeGame (gm k) gd d)"
      by (simp add: gm'_def)
    with unfold True p show ?thesis by simp
  next
    case False
    then have "gm' g = gm g" by (simp add: gm'_def)
    with IH unfold False p show ?thesis by (simp split: option.splits)
  qed
qed

lemmas eval_merge =
  updateAllTimeScores_def mergeGame_def mergedScoreMap_def Map_new_def mergeScore_def stamp_def
  Map_values_def sortByScoreDesc_def rerank_def firstAchievedOn_def js_or_def truthy_def Let_def
  gameScores_def main_def numeral_2_eq_2 numeral_3_eq_3

lemma mergeGames_preserved:
  "gm g = Some (mergeGame (Some G) gd d) \<Longrightarrow>
   \<exists>G' gd'. mergeGames gm D d g = Some (mergeGame (Some G') gd' d)"
proof (induction D arbitrary: gm G gd)
  case Nil
  then show ?case by auto
next
  case (Cons p D)
  obtain k kd where p: "p = (k, kd)" by (cases p)
  define gm' where "gm' = gm(k \<mapsto> mergeGame (gm k) kd d)"
  have unfold: "mergeGames gm (p # D) d g = mergeGames gm' D d g" by (simp add: p gm'_def)
  have "\<exists>G' gd'. gm' g = Some (mergeGame (Some G') gd' d)"
  proof (cases "g = k")
    case True
    with Cons.prems have "gm' g = Some (mergeGame (Some (mergeGame (Some G) gd d)) kd d)"
      by (simp add: gm'_def)
    then show ?thesis by blast
  next
    case False
    with Cons.prems have "gm' g = Some (mergeGame (Some G) gd d)" by (simp add: gm'_def)
    then show ?thesis by blast
  qed
  then obtain G' gd' where "gm' g = Some (mergeGame (Some G') gd' d)" by blast
  then have "\<exists>G' gd'. mergeGames gm' D d g = Some (mergeGame (Some G') gd' d)"
    by (rule Cons.IH)
  then show ?case by (simp only: unfold)
qed

lemma mergeGames_established:
  "g \<in> fst ` set D \<Longrightarrow> gm g = Some G0 \<Longrightarrow>
   \<exists>G gd. mergeGames gm D d g = Some (mergeGame (Some G) gd d)"
proof (induction D arbitrary: gm G0)
  case Nil
  then show ?case by simp
next
  case (Cons p D)
  obtain k kd where p: "p = (k, kd)" by (cases p)
  define gm' where "gm' = gm(k \<mapsto> mergeGame (gm k) kd d)"
  have unfold: "mergeGames gm (p # D) d g = mergeGames gm' D d g" by (simp add: p gm'_def)
  show ?case
  proof (cases "g = k")
    case True
    with Cons.prems(2) have "gm' g = Some (mergeGame (Some G0) kd d)" by (simp add: gm'_def)
    then have "\<exists>G' gd'. mergeGames gm' D d g = Some (mergeGame (Some G') gd' d)"
      by (rule mergeGames_preserved)
    then show ?thesis by (simp only: unfold)
  next
    case False
    with Cons.prems p have "g \<in> fst ` set D" "gm' g = Some G0" by (auto simp: gm'_def)
    then have "\<exists>G gd. mergeGames gm' D d g = Some (mergeGame (Some G) gd d)"
      by (rule Cons.IH)
    then show ?thesis by (simp only: unfold)
  qed
qed

lemma gameScores_merged:
  "games R = Some gm \<Longrightarrow>
   gameScores (updateAllTimeScores (Parsed R) D d) g = map_option scores (mergeGames gm D d g)"
  by (simp add: gameScores_def updateAllTimeScores_def)

section \<open>Avatar lookup, user index, aggregation and month dates\<close>

lemma find_append:
  "find P (xs @ ys) = (case find P xs of None \<Rightarrow> find P ys | Some x \<Rightarrow> Some x)"
  by (induction xs) auto

lemma scanPeriods_find:
  "scanPeriods g user ps =
     map_option (\<lambda>b. case b of None \<Rightarrow> None | Some blk \<Rightarrow> blockAvatar blk)
       (find (\<lambda>b. firstUsername b = Some user) (map (blockOf g) ps))"
  by (induction ps) (auto split: option.splits)

lemma scanDays_find:
  "scanDays snapshots gameId user ps =
     (case find (\<lambda>b. firstUsername b = Some user)
             (concat (map (\<lambda>snapshot.
                case gameOf snapshot gameId of None \<Rightarrow> [] | Some g \<Rightarrow> map (blockOf g) ps)
                snapshots)) of
        None \<Rightarrow> None
      | Some None \<Rightarrow> None
      | Some (Some blk) \<Rightarrow> blockAvatar blk)"
proof (induction snapshots)
  case Nil
  then show ?case by simp
next
  case (Cons s snapshots)
  show ?case
  proof (cases "gameOf s gameId")
    case None
    with Cons show ?thesis by simp
  next
    case (Some g)
    show ?thesis
    proof (cases "find (\<lambda>b. firstUsername b = Some user) (map (blockOf g) ps)")
      case None
      with Some Cons show ?thesis by (simp add: find_append scanPeriods_find)
    next
      case found: (Some b)
      with Some show ?thesis by (simp add: find_append scanPeriods_find split: option.splits)
    qed
  qed
qed

lemma findAvatarForUser_find:
  "findAvatarForUser snapshots gameId user prioritizeHighscores =
     (case find (\<lambda>b. firstUsername b = Some user)
             (candidateBlocks snapshots gameId prioritizeHighscores) of
        None \<Rightarrow> None
      | Some None \<Rightarrow> None
      | Some (Some blk) \<Rightarrow> blockAvatar blk)"
  by (simp add: findAvatarForUser_def candidateBlocks_def scanDays_find periods_def)

lemma rankOneFirst_username:
  "rankOneFirst b \<Longrightarrow> map_option username (rankOneEntry b) = firstUsername b"
  by (simp add: rankOneFirst_def rankOneEntry_def firstUsername_def scoresOf_def
      split: option.splits list.splits)

lemma updateLastSeen_avatar:
  "updateLastSeen d gameId r (u\<lparr>avatar := a\<rparr>) = (updateLastSeen d gameId r u)\<lparr>avatar := a\<rparr>"
  by (simp add: updateLastSeen_def storedRank_def)

lemma updateUser_seen:
  "lastSeen (updateUser d gameId topAv e r u) = lastSeen (updateLastSeen d gameId r u)"
  "lastAppearance (updateUser d gameId topAv e r u) =
     lastAppearance (updateLastSeen d gameId r u)"
  by (simp_all add: updateUser_def Let_def updateLastSeen_avatar)

lemma processEntry_throws:
  "users (username e) = None \<Longrightarrow> username e \<in> set inheritedProperties \<Longrightarrow>
   processEntry d gameId topAv users (e, idx) = Inl TypeError"
  by (simp add: processEntry_def lookupUser_def Let_def)

lemma processEntry_completes:
  "\<not> (users (username e) = None \<and> username e \<in> set inheritedProperties) \<Longrightarrow>
   processEntry d gameId topAv users (e, idx) =
     Inr (users(username e \<mapsto>
       updateUser d gameId topAv e (if rank e = 0 then idx + 1 else rank e)
         (userBefore users (username e))))"
  by (cases "users (username e)") (simp_all add: processEntry_def lookupUser_def userBefore_def Let_def)


lemma bestDay_foldl:
  "bestDay scoreType gameId m snapshot =
     foldl (\<lambda>m ob. bestStep (fst ob) m (snd ob)) m (observations [snapshot] scoreType gameId)"
  by (simp add: bestDay_def observations_def foldl_map split: option.splits)

lemma observations_Cons:
  "observations (s # snapshots) scoreType gameId =
     observations [s] scoreType gameId @ observations snapshots scoreType gameId"
  by (simp add: observations_def)

lemma foldl_bestDay:
  "foldl (bestDay scoreType gameId) m snapshots =
     foldl (\<lambda>m ob. bestStep (fst ob) m (snd ob)) m (observations snapshots scoreType gameId)"
proof (induction snapshots arbitrary: m)
  case Nil
  then show ?case by (simp add: observations_def)
next
  case (Cons s snapshots)
  show ?case
    unfolding observations_Cons [of s snapshots] foldl_append foldl_Cons
    by (simp only: Cons.IH bestDay_foldl)
qed

lemma userBestScores_foldl:
  "userBestScores snapshots scoreType gameId =
     foldl (\<lambda>m ob. bestStep (fst ob) m (snd ob)) [] (observations snapshots scoreType gameId)"
  by (simp add: userBestScores_def foldl_bestDay)

lemma bestOf_other:
  "username (snd ob) \<noteq> user \<Longrightarrow> bestOf (obs @ [ob]) user = bestOf obs user"
  by (simp add: bestOf_def)

lemma bestStep_other:
  "username e \<noteq> user \<Longrightarrow> Map_get (bestStep d m e) user = Map_get m user"
  by (simp add: bestStep_def Map_get_set split: option.splits)

lemma bestOf_first:
  assumes "filter (\<lambda>ob. username (snd ob) = username e) obs = []"
  shows "bestOf (obs @ [(d, e)]) (username e) =
           Some \<lparr>bestUsername = username e, bestScore = score e, bestDate = d\<rparr>"
  using assms by (simp add: bestOf_def)

lemma bestOf_unfold:
  assumes "seen = filter (\<lambda>ob. username (snd ob) = user) obs" "seen \<noteq> []"
  shows "\<exists>ob \<in> set seen.
           find (\<lambda>ob. score (snd ob) = Max (set (map (\<lambda>ob. score (snd ob)) seen))) seen = Some ob \<and>
           score (snd ob) = Max (set (map (\<lambda>ob. score (snd ob)) seen)) \<and>
           bestOf obs user =
             Some \<lparr>bestUsername = user, bestScore = score (snd ob), bestDate = fst ob\<rparr>"
proof -
  define top where "top = Max (set (map (\<lambda>ob. score (snd ob)) seen))"
  have "set (map (\<lambda>ob. score (snd ob)) seen) \<noteq> {}" using assms(2) by simp
  then have "top \<in> set (map (\<lambda>ob. score (snd ob)) seen)"
    unfolding top_def by (intro Max_in) simp_all
  then have ex: "\<exists>ob \<in> set seen. score (snd ob) = top" by auto
  have "find (\<lambda>ob. score (snd ob) = top) seen \<noteq> None"
  proof
    assume "find (\<lambda>ob. score (snd ob) = top) seen = None"
    then have "\<not> (\<exists>x. x \<in> set seen \<and> score (snd x) = top)" unfolding find_None_iff .
    with ex show False by blast
  qed
  then obtain ob where ob: "find (\<lambda>ob. score (snd ob) = top) seen = Some ob" by auto
  then have mem: "ob \<in> set seen" and sc: "score (snd ob) = top"
    by (auto simp: find_Some_iff)
  from ob assms have best: "bestOf obs user =
      Some \<lparr>bestUsername = user, bestScore = top, bestDate = fst ob\<rparr>"
    by (simp add: bestOf_def Let_def top_def)
  show ?thesis
  proof (rule bexI [of _ ob])
    show "find (\<lambda>ob. score (snd ob) = Max (set (map (\<lambda>ob. score (snd ob)) seen))) seen = Some ob \<and>
          score (snd ob) = Max (set (map (\<lambda>ob. score (snd ob)) seen)) \<and>
          bestOf obs user =
            Some \<lparr>bestUsername = user, bestScore = score (snd ob), bestDate = fst ob\<rparr>"
      using ob sc best unfolding top_def by simp
    show "ob \<in> set seen" by fact
  qed
qed

lemma bestOf_None: "bestOf obs user = None \<longleftrightarrow> filter (\<lambda>ob. username (snd ob) = user) obs = []"
proof (cases "filter (\<lambda>ob. username (snd ob) = user) obs = []")
  case True
  then show ?thesis by (simp add: bestOf_def)
next
  case False
  from bestOf_unfold [OF refl False] False show ?thesis by auto
qed

lemma Max_snoc:
  fixes xs :: "int list"
  assumes "xs \<noteq> []"
  shows "Max (set (xs @ [x])) = max x (Max (set xs))"
  using assms by simp

lemma bestOf_snoc_same:
  assumes prev: "bestOf obs (username e) = Some b"
  shows "bestOf (obs @ [(d, e)]) (username e) =
           Some (if bestScore b < score e
                 then \<lparr>bestUsername = username e, bestScore = score e, bestDate = d\<rparr>
                 else b)"
proof -
  define seen where "seen = filter (\<lambda>ob. username (snd ob) = username e) obs"
  define top where "top = Max (set (map (\<lambda>ob. score (snd ob)) seen))"
  from prev have ne: "seen \<noteq> []" unfolding seen_def by (auto simp: bestOf_None [symmetric])
  from bestOf_unfold [OF seen_def ne] prev
  obtain ob where ob: "ob \<in> set seen" "find (\<lambda>ob. score (snd ob) = top) seen = Some ob"
    "score (snd ob) = top" "b = \<lparr>bestUsername = username e, bestScore = top, bestDate = fst ob\<rparr>"
    unfolding top_def by auto
  have seen': "filter (\<lambda>ob. username (snd ob) = username e) (obs @ [(d, e)]) = seen @ [(d, e)]"
    by (simp add: seen_def)
  have ne': "seen @ [(d, e)] \<noteq> []" by simp
  have top': "Max (set (map (\<lambda>ob. score (snd ob)) (seen @ [(d, e)]))) = max (score e) top"
    using ne by (simp add: top_def)
  have le: "\<forall>x \<in> set seen. score (snd x) \<le> top"
    unfolding top_def by (auto intro!: Max_ge)
  show ?thesis
  proof (cases "top < score e")
    case True
    with le have "find (\<lambda>ob. score (snd ob) = max (score e) top) seen = None"
      by (auto simp: find_None_iff max_def)
    with True have "find (\<lambda>ob. score (snd ob) = max (score e) top) (seen @ [(d, e)]) = Some (d, e)"
      by (simp add: find_append max_def)
    with True ob(4) show ?thesis
      unfolding bestOf_def Let_def seen' top' by (simp add: max_def)
  next
    case False
    then have mx: "max (score e) top = top" by (simp add: max_def)
    with ob(2) have "find (\<lambda>ob. score (snd ob) = max (score e) top) (seen @ [(d, e)]) = Some ob"
      by (simp add: find_append)
    with False ob(4) show ?thesis
      unfolding bestOf_def Let_def seen' top' by (simp add: mx)
  qed
qed

lemma bestStep_same:
  "Map_get (bestStep d m e) (username e) =
     Some (case Map_get m (username e) of
             None \<Rightarrow> \<lparr>bestUsername = username e, bestScore = score e, bestDate = d\<rparr>
           | Some b \<Rightarrow>
               if bestScore b < score e
               then \<lparr>bestUsername = username e, bestScore = score e, bestDate = d\<rparr>
               else b)"
  by (simp add: bestStep_def Map_get_set split: option.splits)

lemma bestStep_bestOf_same:
  assumes "Map_get m (username e) = bestOf obs (username e)"
  shows "Map_get (bestStep d m e) (username e) = bestOf (obs @ [(d, e)]) (username e)"
proof (cases "bestOf obs (username e)")
  case None
  then have "filter (\<lambda>ob. username (snd ob) = username e) obs = []"
    by (simp add: bestOf_None)
  from bestOf_first [OF this, of d] None assms show ?thesis
    by (simp add: bestStep_same)
next
  case (Some b)
  from bestOf_snoc_same [OF this, of d] Some assms show ?thesis
    by (simp add: bestStep_same)
qed

lemma foldl_bestStep_bestOf:
  "Map_get (foldl (\<lambda>m ob. bestStep (fst ob) m (snd ob)) [] obs) user = bestOf obs user"
proof (induction obs rule: rev_induct)
  case Nil
  then show ?case by (simp add: bestOf_def)
next
  case (snoc x obs)
  obtain d e where x: "x = (d, e)" by (cases x)
  show ?case
  proof (cases "username e = user")
    case False
    with snoc x show ?thesis by (simp add: bestStep_other bestOf_other)
  next
    case True
    from snoc have "Map_get (foldl (\<lambda>m ob. bestStep (fst ob) m (snd ob)) [] obs) (username e) =
        bestOf obs (username e)" unfolding True .
    from bestStep_bestOf_same [OF this, of d] show ?thesis
      unfolding True x by simp
  qed
qed

lemma userBestScores_bestOf:
  "Map_get (userBestScores snapshots scoreType gameId) user =
     bestOf (observations snapshots scoreType gameId) user"
  by (simp only: userBestScores_foldl foldl_bestStep_bestOf)

lemma rankFrom_length [simp]: "length (rankFrom i bs) = length bs"
  by (induction bs arbitrary: i) auto

lemma rankFrom_username [simp]: "map username (rankFrom i bs) = map bestUsername bs"
  by (induction bs arbitrary: i) auto

lemma rankFrom_score [simp]: "map score (rankFrom i bs) = map bestScore bs"
  by (induction bs arbitrary: i) auto

lemma rankFrom_rank: "map rank (rankFrom i bs) = [Suc i ..< Suc i + length bs]"
  by (induction bs arbitrary: i) (auto simp: upt_rec)

lemma rankFrom_mem:
  "x \<in> set (rankFrom i bs) \<Longrightarrow>
   \<exists>b \<in> set bs. username x = bestUsername b \<and> score x = bestScore b"
  by (induction bs arbitrary: i) auto

lemma rankFrom_keeps:
  "b \<in> set bs \<Longrightarrow> \<exists>x \<in> set (rankFrom i bs). username x = bestUsername b \<and> score x = bestScore b"
  by (induction bs arbitrary: i) auto

lemma bestKeyed_bestStep: "bestKeyed m \<Longrightarrow> bestKeyed (bestStep d m e)"
proof -
  assume m: "bestKeyed m"
  have "bestKeyed (Map_set m (username e) \<lparr>bestUsername = username e, bestScore = score e, bestDate = d\<rparr>)"
    using m set_Map_set [of m "username e" "\<lparr>bestUsername = username e, bestScore = score e, bestDate = d\<rparr>"]
    unfolding bestKeyed_def by (auto simp: distinct_Map_set)
  with m show ?thesis by (simp add: bestStep_def split: option.splits)
qed

lemma bestKeyed_foldl:
  "bestKeyed m \<Longrightarrow> bestKeyed (foldl (\<lambda>m ob. bestStep (fst ob) m (snd ob)) m obs)"
  by (induction obs arbitrary: m) (auto simp: bestKeyed_bestStep)

lemma bestKeyed_userBestScores: "bestKeyed (userBestScores snapshots scoreType gameId)"
  unfolding userBestScores_foldl by (rule bestKeyed_foldl) (simp add: bestKeyed_def)

lemma best_values_names: "bestKeyed m \<Longrightarrow> map bestUsername (map snd m) = map fst m"
  by (induction m) (auto simp: bestKeyed_def)

lemma aggregateGame_scores:
  "scores (aggregateGame snapshots scoreType gameId) =
     rankFrom 0 (take 10 (bestSorted snapshots scoreType gameId))"
  by (simp add: aggregateGame_def sortedTop10_def bestSorted_def Let_def)

lemma bestSorted_mem:
  "b \<in> set (bestSorted snapshots scoreType gameId) \<longleftrightarrow>
   bestOf (observations snapshots scoreType gameId) (bestUsername b) = Some b"
proof -
  let ?m = "userBestScores snapshots scoreType gameId"
  have wk: "bestKeyed ?m" by (rule bestKeyed_userBestScores)
  have "b \<in> set (bestSorted snapshots scoreType gameId) \<longleftrightarrow> b \<in> snd ` set ?m"
    by (simp add: bestSorted_def Map_values_def)
  also have "\<dots> \<longleftrightarrow> (bestUsername b, b) \<in> set ?m"
    using wk by (force simp: bestKeyed_def)
  also have "\<dots> \<longleftrightarrow> Map_get ?m (bestUsername b) = Some b"
    using wk Map_get_distinct [of ?m "bestUsername b" b] Map_get_Some_mem [of ?m "bestUsername b" b]
    by (auto simp: bestKeyed_def)
  finally show ?thesis by (simp only: userBestScores_bestOf)
qed

lemma bestOf_name: "bestOf obs user = Some b \<Longrightarrow> bestUsername b = user"
  by (auto simp: bestOf_def Let_def split: if_splits)

lemma bestSorted_distinct: "distinct (map bestUsername (bestSorted snapshots scoreType gameId))"
proof -
  let ?m = "userBestScores snapshots scoreType gameId"
  have wk: "bestKeyed ?m" by (rule bestKeyed_userBestScores)
  then have "distinct (map bestUsername (Map_values ?m))"
    unfolding Map_values_def best_values_names [OF wk] by (simp add: bestKeyed_def)
  then show ?thesis by (simp add: bestSorted_def distinct_map_sort_key)
qed

lemma bestSorted_sorted: "sorted (map (\<lambda>b. - bestScore b) (bestSorted snapshots scoreType gameId))"
  by (simp add: bestSorted_def)

lemma aggregate_shape:
  fixes snapshots scoreType gameId
  defines "out \<equiv> scores (aggregateGame snapshots scoreType gameId)"
  shows "length out \<le> 10"
    and "sorted_wrt (\<lambda>a b. score b \<le> score a) out"
    and "map rank out = [1 ..< Suc (length out)]"
    and "distinct (map username out)"
proof -
  let ?S = "bestSorted snapshots scoreType gameId"
  have out: "out = rankFrom 0 (take 10 ?S)" by (simp add: out_def aggregateGame_scores)
  show "length out \<le> 10" by (simp add: out)
  have "map score out = map bestScore (take 10 ?S)" by (simp add: out)
  then have "map uminus (map score out) = map uminus (map bestScore (take 10 ?S))" by (simp only:)
  then have "map (\<lambda>e. - score e) out = take 10 (map (\<lambda>b. - bestScore b) ?S)"
    by (simp only: map_map comp_def take_map)
  with bestSorted_sorted [of snapshots scoreType gameId]
  have "sorted (map (\<lambda>e. - score e) out)" by (simp only: sorted_wrt_take)
  then show "sorted_wrt (\<lambda>a b. score b \<le> score a) out" by (simp only: sorted_neg_scores)
  show "map rank out = [1 ..< Suc (length out)]"
    unfolding out using rankFrom_rank [of 0 "take 10 ?S"] by simp
  have "map username out = take 10 (map bestUsername ?S)"
    unfolding out rankFrom_username by (rule take_map [symmetric])
  with bestSorted_distinct [of snapshots scoreType gameId]
  show "distinct (map username out)" by (simp only: distinct_take)
qed

lemma aggregate_members:
  assumes "x \<in> set (scores (aggregateGame snapshots scoreType gameId))"
  shows "\<exists>b. bestOf (observations snapshots scoreType gameId) (username x) = Some b \<and>
             bestScore b = score x"
proof -
  from assms rankFrom_mem [of x 0 "take 10 (bestSorted snapshots scoreType gameId)"]
  obtain b where b: "b \<in> set (take 10 (bestSorted snapshots scoreType gameId))"
    "username x = bestUsername b" "score x = bestScore b"
    unfolding aggregateGame_scores by blast
  from b(1) have "b \<in> set (bestSorted snapshots scoreType gameId)" by (rule in_set_takeD)
  then have "bestOf (observations snapshots scoreType gameId) (bestUsername b) = Some b"
    by (simp only: bestSorted_mem)
  with b(2,3) show ?thesis by simp
qed

lemma aggregate_excluded:
  assumes best: "bestOf (observations snapshots scoreType gameId) user = Some b"
    and out: "user \<notin> username ` set (scores (aggregateGame snapshots scoreType gameId))"
  shows "length (scores (aggregateGame snapshots scoreType gameId)) = 10 \<and>
         (\<forall>x \<in> set (scores (aggregateGame snapshots scoreType gameId)). bestScore b \<le> score x)"
proof -
  let ?S = "bestSorted snapshots scoreType gameId"
  from best have nm: "bestUsername b = user" by (rule bestOf_name)
  with best have inS: "b \<in> set ?S" by (simp add: bestSorted_mem)
  have split: "set ?S = set (take 10 ?S) \<union> set (drop 10 ?S)"
    using set_append [of "take 10 ?S" "drop 10 ?S"] by (simp only: append_take_drop_id)
  have "b \<notin> set (take 10 ?S)"
  proof
    assume "b \<in> set (take 10 ?S)"
    from rankFrom_keeps [OF this, of 0] nm out show False
      unfolding aggregateGame_scores by force
  qed
  with inS split have bd: "b \<in> set (drop 10 ?S)" by blast
  then have "drop 10 ?S \<noteq> []" by auto
  then have len: "length (rankFrom 0 (take 10 ?S)) = 10" by simp
  have "bestScore b \<le> score x" if "x \<in> set (rankFrom 0 (take 10 ?S))" for x
  proof -
    from rankFrom_mem [OF that] obtain b' where b': "b' \<in> set (take 10 ?S)" "score x = bestScore b'"
      by blast
    from bestSorted_sorted [of snapshots scoreType gameId]
    have "sorted (map (\<lambda>b. - bestScore b) (take 10 ?S @ drop 10 ?S))" by simp
    with b'(1) bd have "- bestScore b' \<le> - bestScore b"
      unfolding map_append sorted_append by auto
    with b'(2) show ?thesis by simp
  qed
  with len show ?thesis unfolding aggregateGame_scores by blast
qed

lemma aggregateScores_lookup:
  "gameId \<in> set GAMES \<Longrightarrow>
   map_of (aggregateScores snapshots scoreType) gameId =
     Some (aggregateGame snapshots scoreType gameId)"
  by (auto simp: aggregateScores_def GAMES_def)

lemmas eval_aggregate =
  ex_days_def ex_day_def userBestScores_def bestDay_def bestStep_def gameOf_def sourceScores_def
  scoresOf_def aggregateGame_def sortedTop10_def Map_values_def findAvatarForUser_def periods_def
  firstUsername_def Let_def

lemma ariel_best:
  "userBestScores ex_days Yesterday ''pirates'' =
     [(''Ariel'', \<lparr>bestUsername = ''Ariel'', bestScore = 250, bestDate = ''2024-03-02''\<rparr>),
      (''Belle'', \<lparr>bestUsername = ''Belle'', bestScore = 250, bestDate = ''2024-03-03''\<rparr>)]"
  by (simp add: eval_aggregate)

lemma ariel_sorted:
  "sortedTop10 (userBestScores ex_days Yesterday ''pirates'') =
     [\<lparr>rank = 1, username = ''Ariel'', score = 250, achievedOn = None\<rparr>,
      \<lparr>rank = 2, username = ''Belle'', score = 250, achievedOn = None\<rparr>]"
  by (simp add: sortedTop10_def ariel_best Map_values_def numeral_2_eq_2)

lemma ariel_avatar: "findAvatarForUser ex_days ''pirates'' ''Ariel'' False = Some ''a1.png''"
  by (simp add: findAvatarForUser_def periods_def firstUsername_def ex_days_def ex_day_def
      gameOf_def scoresOf_def)

lemma ariel_aggregate:
  "aggregateGame ex_days Yesterday ''pirates'' =
     \<lparr>topAvatar = Some ''a1.png'',
      scores = [\<lparr>rank = 1, username = ''Ariel'', score = 250, achievedOn = None\<rparr>,
                \<lparr>rank = 2, username = ''Belle'', score = 250, achievedOn = None\<rparr>]\<rparr>"
  unfolding aggregateGame_def ariel_sorted Let_def by (simp add: ariel_avatar)

lemma digit_code: "of_char (digit a) = (48 + a) mod (256::nat)"
  by (simp add: digit_def)

lemma digit_0: "digit 0 = CHR ''0''"
proof -
  have "of_char (digit 0) = (of_char CHR ''0'' :: nat)" by (simp add: digit_code)
  then show ?thesis by (simp only: of_char_eq_iff)
qed

lemma decimal_small: "n < 10 \<Longrightarrow> decimal n = [digit n]"
  by (subst decimal.simps) simp

lemma decimal_two: "10 \<le> n \<Longrightarrow> n < 100 \<Longrightarrow> decimal n = [digit (n div 10), digit (n mod 10)]"
  by (subst decimal.simps) (simp add: decimal_small)

lemma pad2: "n < 100 \<Longrightarrow> padStart 2 (decimal n) = [digit (n div 10), digit (n mod 10)]"
proof (cases "n < 10")
  case True
  then show ?thesis by (simp add: padStart_def decimal_small digit_0 [symmetric])
next
  case False
  assume "n < 100"
  with False show ?thesis by (simp add: padStart_def decimal_two)
qed

lemma digit_less: "a < 10 \<Longrightarrow> b < 10 \<Longrightarrow> digit a < digit b \<longleftrightarrow> a < b"
  by (simp add: less_char_def digit_code)

lemma digit_le: "a < 10 \<Longrightarrow> b < 10 \<Longrightarrow> digit a \<le> digit b \<longleftrightarrow> a \<le> b"
  by (simp add: less_eq_char_def digit_code)

lemma digit_eq:
  assumes "a < 10" "b < 10"
  shows "digit a = digit b \<longleftrightarrow> a = b"
proof -
  have "digit a = digit b \<longleftrightarrow> (of_char (digit a) :: nat) = of_char (digit b)"
    by (simp only: of_char_eq_iff)
  also have "\<dots> \<longleftrightarrow> a = b" using assms by (simp add: digit_code)
  finally show ?thesis .
qed

lemma pad2_le:
  assumes "k < 100" "d < 100"
  shows "padStart 2 (decimal k) \<le> padStart 2 (decimal d) \<longleftrightarrow> k \<le> d"
proof -
  have k: "k div 10 < 10" "k mod 10 < 10" and d: "d div 10 < 10" "d mod 10 < 10"
    using assms by simp_all
  have "padStart 2 (decimal k) \<le> padStart 2 (decimal d) \<longleftrightarrow>
        digit (k div 10) < digit (d div 10) \<or>
        digit (k div 10) = digit (d div 10) \<and>
        (digit (k mod 10) < digit (d mod 10) \<or> digit (k mod 10) = digit (d mod 10))"
    by (simp add: pad2 assms)
  also have "\<dots> \<longleftrightarrow>
        k div 10 < d div 10 \<or> k div 10 = d div 10 \<and> (k mod 10 < d mod 10 \<or> k mod 10 = d mod 10)"
    by (simp only: digit_less [OF k(1) d(1)] digit_eq [OF k(1) d(1)]
        digit_less [OF k(2) d(2)] digit_eq [OF k(2) d(2)])
  also have "\<dots> \<longleftrightarrow> k \<le> d"
  proof -
    define a b c e where "a = k div 10" and "b = k mod 10" and "c = d div 10" and "e = d mod 10"
    have "k = 10 * a + b" "b < 10" "d = 10 * c + e" "e < 10"
      by (simp_all add: a_def b_def c_def e_def)
    then have "(a < c \<or> a = c \<and> (b < e \<or> b = e)) \<longleftrightarrow> k \<le> d" by arith
    then show ?thesis by (simp only: a_def b_def c_def e_def)
  qed
  finally show ?thesis .
qed

lemma prefix_le: "(p @ xs \<le> p @ ys) = (xs \<le> (ys :: string))"
  by (induction p) simp_all

lemma filter_le_upt: "filter (\<lambda>k. k \<le> d) [1 ..< Suc n] = [1 ..< Suc (min d n)]"
  by (induction n) (auto simp: min_def)

lemma getCurrentMonthDates_upto:
  assumes "d \<le> daysInMonth y m"
  shows "getCurrentMonthDates y m d = map (formatDate y m) [1 ..< Suc d]"
proof -
  have dim: "daysInMonth y m \<le> 31" by (simp add: daysInMonth_def)
  with assms have d: "d < 100" by simp
  have "(decimal y @ ''-'' @ padStart 2 (decimal m) @ ''-'' @ padStart 2 (decimal k) \<le> formatDate y m d)
          = (k \<le> d)" if "k \<in> set [1 ..< Suc (daysInMonth y m)]" for k
  proof -
    from that have "k < Suc (daysInMonth y m)" by (simp only: set_upt atLeastLessThan_iff)
    with dim have "k < 100" by simp
    from pad2_le [OF this d] show ?thesis
      unfolding formatDate_def
      using prefix_le [of "decimal y @ ''-'' @ padStart 2 (decimal m) @ ''-''"
                         "padStart 2 (decimal k)" "padStart 2 (decimal d)"]
      by simp
  qed
  then have "filter (\<lambda>k. decimal y @ ''-'' @ padStart 2 (decimal m) @ ''-'' @ padStart 2 (decimal k)
                        \<le> formatDate y m d) [1 ..< Suc (daysInMonth y m)]
             = filter (\<lambda>k. k \<le> d) [1 ..< Suc (daysInMonth y m)]"
    by (intro filter_cong refl) 
  also have "\<dots> = [1 ..< Suc d]" using assms by (simp only: filter_le_upt min_absorb1)
  finally show ?thesis
    by (simp add: getCurrentMonthDates_def Let_def filter_map comp_def formatDate_def)
qed

lemma month_dates_example: "getCurrentMonthDates 2024 3 2 = [''2024-03-01'', ''2024-03-02'']"
proof -
  have "(2::nat) \<le> daysInMonth 2024 3" by (simp add: daysInMonth_def)
  from getCurrentMonthDates_upto [OF this]
  have "getCurrentMonthDates 2024 3 2 = map (formatDate 2024 3) [1 ..< Suc 2]" .
  also have "\<dots> = [''2024-03-01'', ''2024-03-02'']" by code_simp
  finally show ?thesis .
qed

lemma loadDailyData_cached: "cache \<subseteq>\<^sub>m files \<Longrightarrow> loadDailyData files cache d = files d"
proof (cases "cache d")
  case None
  then show ?thesis by (simp add: loadDailyData_def)
next
  case (Some data)
  assume "cache \<subseteq>\<^sub>m files"
  with Some have "files d = Some data" by (auto simp: map_le_def dom_def)
  with Some show ?thesis by (simp add: loadDailyData_def)
qed

lemma loadMultipleDays_cached:
  "cache \<subseteq>\<^sub>m files \<Longrightarrow> loadMultipleDays files cache dates = List.map_filter files dates"
proof -
  assume "cache \<subseteq>\<^sub>m files"
  then have "loadDailyData files cache = files" by (intro ext loadDailyData_cached)
  then show ?thesis by (simp add: loadMultipleDays_def)
qed

text \<open>
  The dates of the month query on any day of a month: the 1st through that day, the day
  itself being the last.
\<close>

lemma getScoresForPeriod_month_dates:
  assumes "1 \<le> d" and "d \<le> daysInMonth y m" and "cache \<subseteq>\<^sub>m files"
  shows "getCurrentMonthDates y m d = map (formatDate y m) [1 ..< Suc d] \<and>
         last (getCurrentMonthDates y m d) = formatDate y m d \<and>
         getScoresForPeriod_month files cache y m d =
           (let snapshots = List.map_filter files (map (formatDate y m) [1 ..< Suc d])
            in if snapshots = [] then None else Some (aggregateScores snapshots Yesterday))"
proof -
  have dates: "getCurrentMonthDates y m d = map (formatDate y m) [1 ..< Suc d]"
    by (rule getCurrentMonthDates_upto [OF assms(2)])
  from assms(1) have "[1 ..< Suc d] = [1 ..< d] @ [d]" by simp
  then have lst: "last (map (formatDate y m) [1 ..< Suc d]) = formatDate y m d" by simp
  have "getScoresForPeriod_month files cache y m d =
      (let snapshots = List.map_filter files (map (formatDate y m) [1 ..< Suc d])
       in if snapshots = [] then None else Some (aggregateScores snapshots Yesterday))"
    unfolding getScoresForPeriod_month_def dates loadMultipleDays_cached [OF assms(3)] Let_def
    by simp
  with dates lst show ?thesis by simp
qed

text \<open>Dated files keep every stored user well-formed.\<close>

lemma updateLastSeen_wellFormed:
  "wellFormedUser u \<Longrightarrow> d \<noteq> [] \<Longrightarrow> r \<noteq> 0 \<Longrightarrow> wellFormedUser (updateLastSeen d gameId r u)"
  by (simp add: wellFormedUser_def updateLastSeen_def)

lemma wellFormedUser_fields:
  "lastSeen u' = lastSeen u \<Longrightarrow> lastAppearance u' = lastAppearance u \<Longrightarrow>
   wellFormedUser u' = wellFormedUser u"
  by (simp add: wellFormedUser_def)

lemma processEntry_wellFormed:
  assumes "\<forall>n u. users n = Some u \<longrightarrow> wellFormedUser u" and "d \<noteq> []"
    and "processEntry d gameId topAv users (e, idx) = Inr users'" and "users' n = Some u'"
  shows "wellFormedUser u'"
proof -
  define r where "r = (if rank e = 0 then idx + 1 else rank e)"
  have r: "r \<noteq> 0" by (simp add: r_def)
  have "\<not> (users (username e) = None \<and> username e \<in> set inheritedProperties)"
  proof
    assume "users (username e) = None \<and> username e \<in> set inheritedProperties"
    then have "processEntry d gameId topAv users (e, idx) = Inl TypeError"
      by (simp add: processEntry_throws)
    with assms(3) show False by simp
  qed
  then have "processEntry d gameId topAv users (e, idx) =
      Inr (users(username e \<mapsto>
        updateUser d gameId topAv e (if rank e = 0 then idx + 1 else rank e)
          (userBefore users (username e))))"
    by (rule processEntry_completes)
  with assms(3) have users': "users' = users(username e \<mapsto>
      updateUser d gameId topAv e r (userBefore users (username e)))"
    by (simp add: r_def)
  show ?thesis
  proof (cases "n = username e")
    case False
    with assms(4) users' have "users n = Some u'" by simp
    with assms(1) show ?thesis by blast
  next
    case True
    with assms(4) users' have u': "u' = updateUser d gameId topAv e r (userBefore users (username e))"
      by simp
    have "wellFormedUser (userBefore users (username e))"
      using assms(1) by (cases "users (username e)") (auto simp: userBefore_def wellFormedUser_def)
    from updateLastSeen_wellFormed [OF this assms(2) r]
    have wf: "wellFormedUser (updateLastSeen d gameId r (userBefore users (username e)))" .
    have "lastSeen u' = lastSeen (updateLastSeen d gameId r (userBefore users (username e)))"
      "lastAppearance u' = lastAppearance (updateLastSeen d gameId r (userBefore users (username e)))"
      by (simp_all only: u' updateUser_seen)
    from wellFormedUser_fields [OF this] wf show ?thesis by simp
  qed
qed

section \<open>Claims about the all-time merge\<close>

text \<open>
  C1 (as amended). Merging a day a second time changes nothing, provided every game of the
  incoming day already has an entry in the all-time record: for an all-time record \<open>R\<close>
  with a games mapping that contains every game of the day \<open>D\<close>, merging \<open>D\<close> with its
  date into the result of the first merge gives that result again (same entries, scores,
  achievedOn dates, ranks and topAvatar). The game ids of \<open>D\<close> are the keys of a JavaScript
  object, hence distinct.
\<close>

theorem merge_idempotent:
  assumes "games R = Some gm" and "distinct (map fst D)" and "fst ` set D \<subseteq> dom gm"
    and "updateAllTimeScores (Parsed R) D d = Inr R1"
  shows "updateAllTimeScores (Parsed R1) D d = Inr R1"
proof -
  let ?gm1 = "mergeGames gm D d"
  from assms(1,4) have R1: "R1 = R\<lparr>games := Some ?gm1, lastUpdated := d\<rparr>"
    by (simp add: updateAllTimeScores_def)
  have "mergeGames ?gm1 D d g = ?gm1 g" for g
  proof (cases "map_of D g")
    case None
    then show ?thesis by (simp add: mergeGames_lookup [OF assms(2)])
  next
    case (Some gd)
    then have "g \<in> fst ` set D" by (force dest: map_of_SomeD)
    with assms(3) obtain G where G: "gm g = Some G" by blast
    with Some have "?gm1 g = Some (mergeGame (Some G) gd d)"
      by (simp add: mergeGames_lookup [OF assms(2)])
    with Some show ?thesis
      by (simp add: mergeGames_lookup [OF assms(2), of ?gm1] mergeGame_idem)
  qed
  then have "mergeGames ?gm1 D d = ?gm1" by (rule ext)
  then show ?thesis by (simp add: R1 updateAllTimeScores_def)
qed

text \<open>The theorem at a record holding one game, and a day with three players.\<close>

theorem merge_idempotent_witness:
  "games ex_existing = Some [''pirates'' \<mapsto>
        \<lparr>topAvatar = Some ''a1.png'',
         scores = [\<lparr>rank = 1, username = ''Ariel'', score = 100, achievedOn = Some ''2024-03-01''\<rparr>],
         gameName = ''Pirates of the Caribbean''\<rparr>] \<and>
   updateAllTimeScores (Parsed ex_existing) ex_incoming ''2024-03-02'' = Inr ex_merged \<and>
   updateAllTimeScores (Parsed ex_merged) ex_incoming ''2024-03-02'' = Inr ex_merged"
proof -
  have h1: "games ex_existing = Some [''pirates'' \<mapsto>
        \<lparr>topAvatar = Some ''a1.png'',
         scores = [\<lparr>rank = 1, username = ''Ariel'', score = 100, achievedOn = Some ''2024-03-01''\<rparr>],
         gameName = ''Pirates of the Caribbean''\<rparr>]" by (simp add: ex_existing_def)
  have h2: "distinct (map fst ex_incoming)" by (simp add: ex_incoming_def)
  have h3: "fst ` set ex_incoming \<subseteq> dom [''pirates'' \<mapsto>
        \<lparr>topAvatar = Some ''a1.png'',
         scores = [\<lparr>rank = 1, username = ''Ariel'', score = 100, achievedOn = Some ''2024-03-01''\<rparr>],
         gameName = ''Pirates of the Caribbean''\<rparr>]" by (simp add: ex_incoming_def)
  have h4: "updateAllTimeScores (Parsed ex_existing) ex_incoming ''2024-03-02'' = Inr ex_merged"
    by (simp add: ex_existing_def ex_incoming_def ex_merged_def eval_merge)
  from merge_idempotent [OF h1 h2 h3 h4] h1 h4 show ?thesis by simp
qed

text \<open>
  A game that the all-time record does not hold yet is seeded from the highscores column only,
  and the today column is skipped; the second merge of the same day then takes the merge path
  and adds the today column's players.
\<close>

theorem merge_idempotent_counterexample:
  "updateAllTimeScores (Parsed cx_fresh) ex_incoming ''2024-03-02'' = Inr cx_seeded \<and>
   updateAllTimeScores (Parsed cx_seeded) ex_incoming ''2024-03-02'' \<noteq> Inr cx_seeded"
proof
  show "updateAllTimeScores (Parsed cx_fresh) ex_incoming ''2024-03-02'' = Inr cx_seeded"
    by (simp add: cx_fresh_def cx_seeded_def ex_incoming_def eval_merge)
  have "gameScores (updateAllTimeScores (Parsed cx_seeded) ex_incoming ''2024-03-02'') ''pirates''
        \<noteq> gameScores (Inr cx_seeded) ''pirates''"
    by (simp add: cx_seeded_def ex_incoming_def eval_merge)
  then show "updateAllTimeScores (Parsed cx_seeded) ex_incoming ''2024-03-02'' \<noteq> Inr cx_seeded"
    by auto
qed

text \<open>
  C2 (as amended). After a merge, every game that was already in the all-time record and
  occurs in the incoming day has a score list of length at most 50, sorted in non-increasing
  order of score, whose ranks are exactly 1, 2, ..., length.
\<close>

theorem topN_after_merge:
  assumes "games R = Some gm" and "g \<in> dom gm" and "g \<in> fst ` set D"
  shows "\<exists>ss. gameScores (updateAllTimeScores (Parsed R) D d) g = Some ss \<and>
           length ss \<le> 50 \<and>
           sorted_wrt (\<lambda>a b. score b \<le> score a) ss \<and>
           map rank ss = [1 ..< Suc (length ss)]"
proof -
  from assms(2) obtain G0 where G0: "gm g = Some G0" by blast
  from assms(3) G0 have "\<exists>G gd. mergeGames gm D d g = Some (mergeGame (Some G) gd d)"
    by (rule mergeGames_established)
  then obtain G gd where "mergeGames gm D d g = Some (mergeGame (Some G) gd d)" by blast
  with mergeGame_topN [of G gd d] show ?thesis
    by (simp add: gameScores_merged [OF assms(1)] topN_def)
qed

text \<open>The theorem at the record and the day of the example above.\<close>

theorem topN_after_merge_witness:
  "games ex_existing = Some [''pirates'' \<mapsto>
        \<lparr>topAvatar = Some ''a1.png'',
         scores = [\<lparr>rank = 1, username = ''Ariel'', score = 100, achievedOn = Some ''2024-03-01''\<rparr>],
         gameName = ''Pirates of the Caribbean''\<rparr>] \<and>
   ''pirates'' \<in> fst ` set ex_incoming \<and>
   (\<exists>ss. gameScores (updateAllTimeScores (Parsed ex_existing) ex_incoming ''2024-03-02'') ''pirates''
            = Some ss \<and>
         length ss \<le> 50 \<and> sorted_wrt (\<lambda>a b. score b \<le> score a) ss \<and>
         map rank ss = [1 ..< Suc (length ss)])"
proof -
  have h1: "games ex_existing = Some [''pirates'' \<mapsto>
        \<lparr>topAvatar = Some ''a1.png'',
         scores = [\<lparr>rank = 1, username = ''Ariel'', score = 100, achievedOn = Some ''2024-03-01''\<rparr>],
         gameName = ''Pirates of the Caribbean''\<rparr>]" by (simp add: ex_existing_def)
  have h2: "''pirates'' \<in> dom [''pirates'' \<mapsto>
        \<lparr>topAvatar = Some ''a1.png'',
         scores = [\<lparr>rank = 1, username = ''Ariel'', score = 100, achievedOn = Some ''2024-03-01''\<rparr>],
         gameName = ''Pirates of the Caribbean''\<rparr>]" by simp
  have h3: "''pirates'' \<in> fst ` set ex_incoming" by (simp add: ex_incoming_def)
  from topN_after_merge [OF h1 h2 h3] h1 h3 show ?thesis by blast
qed

text \<open>
  A game seen for the first time keeps the highscores column as scraped: neither sorted nor
  re-ranked (\<^verbatim>\<open>parseScores\<close> numbers the list items, and skips the items that do not
  match).
\<close>

theorem topN_after_merge_counterexample:
  "gameScores (updateAllTimeScores (Parsed cx_fresh) cx_unsorted ''2024-03-02'') ''pirates'' =
     Some [\<lparr>rank = 1, username = ''Ariel'', score = 90, achievedOn = Some ''2024-03-02''\<rparr>,
           \<lparr>rank = 3, username = ''Cindy'', score = 100, achievedOn = Some ''2024-03-02''\<rparr>] \<and>
   \<not> sorted_wrt (\<lambda>a b. score b \<le> score a)
       [\<lparr>rank = 1, username = ''Ariel'', score = 90, achievedOn = Some ''2024-03-02''\<rparr>,
        \<lparr>rank = 3, username = ''Cindy'', score = 100, achievedOn = Some ''2024-03-02''\<rparr>] \<and>
   map rank
       [\<lparr>rank = 1, username = ''Ariel'', score = 90, achievedOn = Some ''2024-03-02''\<rparr>,
        \<lparr>rank = 3, username = ''Cindy'', score = 100, achievedOn = Some ''2024-03-02''\<rparr>]
     \<noteq> [1 ..< Suc 2]"
proof (intro conjI)
  show "gameScores (updateAllTimeScores (Parsed cx_fresh) cx_unsorted ''2024-03-02'') ''pirates'' =
     Some [\<lparr>rank = 1, username = ''Ariel'', score = 90, achievedOn = Some ''2024-03-02''\<rparr>,
           \<lparr>rank = 3, username = ''Cindy'', score = 100, achievedOn = Some ''2024-03-02''\<rparr>]"
    by (simp add: cx_fresh_def cx_unsorted_def eval_merge)
  show "\<not> sorted_wrt (\<lambda>a b. score b \<le> score a)
       [\<lparr>rank = 1, username = ''Ariel'', score = 90, achievedOn = Some ''2024-03-02''\<rparr>,
        \<lparr>rank = 3, username = ''Cindy'', score = 100, achievedOn = Some ''2024-03-02''\<rparr>]"
    by simp
  show "map rank
       [\<lparr>rank = 1, username = ''Ariel'', score = 90, achievedOn = Some ''2024-03-02''\<rparr>,
        \<lparr>rank = 3, username = ''Cindy'', score = 100, achievedOn = Some ''2024-03-02''\<rparr>]
     \<noteq> [1 ..< Suc 2]"
    by (simp add: upt_rec)
qed




text \<open>
  C4 (as amended). When the all-time file cannot be read or does not parse, the merge starts
  from an empty record: it returns a record whose games are exactly the games of the incoming
  day, each seeded from its highscores column with every entry stamped with the date, and
  the run does not fail.
\<close>

theorem cold_start_on_read_or_parse_failure:
  assumes "distinct (map fst incoming)"
  shows "\<exists>gm. updateAllTimeScores ReadOrParseFailure incoming d =
                 Inr \<lparr>lastUpdated = d, games = Some gm\<rparr> \<and>
              main ReadOrParseFailure incoming d = Completed \<lparr>lastUpdated = d, games = Some gm\<rparr> \<and>
              dom gm = fst ` set incoming \<and>
              (\<forall>(g, gd) \<in> set incoming.
                 gm g = Some \<lparr>topAvatar = topAvatar (highscores gd),
                              scores = map (\<lambda>s. s\<lparr>achievedOn := Some d\<rparr>) (scores (highscores gd)),
                              gameName = name gd\<rparr>)"
proof -
  let ?gm = "mergeGames Map.empty incoming d"
  have look: "?gm g = map_option (\<lambda>gd. mergeGame None gd d) (map_of incoming g)" for g
    by (simp add: mergeGames_lookup [OF assms] split: option.splits)
  have res: "updateAllTimeScores ReadOrParseFailure incoming d =
               Inr \<lparr>lastUpdated = d, games = Some ?gm\<rparr>"
    by (simp add: updateAllTimeScores_def)
  then have mn: "main ReadOrParseFailure incoming d = Completed \<lparr>lastUpdated = d, games = Some ?gm\<rparr>"
    by (simp add: main_def)
  have "g \<in> dom ?gm \<longleftrightarrow> g \<in> fst ` set incoming" for g
    by (simp add: look dom_def map_of_eq_None_iff)
  then have dm: "dom ?gm = fst ` set incoming" by blast
  have seeded: "\<forall>(g, gd) \<in> set incoming.
      ?gm g = Some \<lparr>topAvatar = topAvatar (highscores gd),
                     scores = map (\<lambda>s. s\<lparr>achievedOn := Some d\<rparr>) (scores (highscores gd)),
                     gameName = name gd\<rparr>"
  proof (clarify)
    fix g gd assume "(g, gd) \<in> set incoming"
    with assms have "map_of incoming g = Some gd" by simp
    then show "?gm g = Some \<lparr>topAvatar = topAvatar (highscores gd),
                     scores = map (\<lambda>s. s\<lparr>achievedOn := Some d\<rparr>) (scores (highscores gd)),
                     gameName = name gd\<rparr>"
      by (simp add: look mergeGame_def stamp_def)
  qed
  from res mn dm seeded show ?thesis by blast
qed

text \<open>The theorem at the day of the example above.\<close>

theorem cold_start_on_read_or_parse_failure_witness:
  "distinct (map fst ex_incoming) \<and>
   main ReadOrParseFailure ex_incoming ''2024-03-02'' = Completed cx_seeded"
proof -
  have h: "distinct (map fst ex_incoming)" by (simp add: ex_incoming_def)
  from cold_start_on_read_or_parse_failure [OF h, of "''2024-03-02''"]
  obtain gm where gm:
    "main ReadOrParseFailure ex_incoming ''2024-03-02'' =
       Completed \<lparr>lastUpdated = ''2024-03-02'', games = Some gm\<rparr>"
    "dom gm = fst ` set ex_incoming"
    "\<forall>(g, gd) \<in> set ex_incoming.
        gm g = Some \<lparr>topAvatar = topAvatar (highscores gd),
                     scores = map (\<lambda>s. s\<lparr>achievedOn := Some ''2024-03-02''\<rparr>) (scores (highscores gd)),
                     gameName = name gd\<rparr>" by blast
  have "gm = [''pirates'' \<mapsto>
        \<lparr>topAvatar = Some ''a1.png'',
         scores = [\<lparr>rank = 1, username = ''Ariel'', score = 100, achievedOn = Some ''2024-03-02''\<rparr>,
                   \<lparr>rank = 2, username = ''Cindy'', score = 90, achievedOn = Some ''2024-03-02''\<rparr>],
         gameName = ''Pirates of the Caribbean''\<rparr>]"
  proof (rule ext)
    fix g
    show "gm g = [''pirates'' \<mapsto>
        \<lparr>topAvatar = Some ''a1.png'',
         scores = [\<lparr>rank = 1, username = ''Ariel'', score = 100, achievedOn = Some ''2024-03-02''\<rparr>,
                   \<lparr>rank = 2, username = ''Cindy'', score = 90, achievedOn = Some ''2024-03-02''\<rparr>],
         gameName = ''Pirates of the Caribbean''\<rparr>] g"
    proof (cases "g = ''pirates''")
      case True
      with gm(3) show ?thesis by (simp add: ex_incoming_def)
    next
      case False
      with gm(2) have "g \<notin> dom gm" by (simp add: ex_incoming_def)
      with False show ?thesis by (simp add: domIff)
    qed
  qed
  with gm(1) h show ?thesis by (simp add: cx_seeded_def)
qed

text \<open>
  A file that parses to an object without \<^verbatim>\<open>games\<close> is not recovered: the first game of
  the day raises a TypeError outside the \<^verbatim>\<open>try\<close>, and \<^verbatim>\<open>main\<close> exits with status 1.
\<close>

theorem missing_games_is_fatal_counterexample:
  "main (Parsed \<lparr>lastUpdated = ''2024-03-01'', games = None\<rparr>) ex_incoming ''2024-03-02'' = Exit1"
  by (simp add: main_def updateAllTimeScores_def ex_incoming_def)

text \<open>
  C8 (as amended). The merge compares usernames by exact string equality: after a merge,
  every game that was already in the all-time record and occurs in the incoming day holds at
  most one entry per exact username.
\<close>

theorem one_entry_per_exact_username:
  assumes "games R = Some gm" and "g \<in> dom gm" and "g \<in> fst ` set D"
  shows "\<exists>ss. gameScores (updateAllTimeScores (Parsed R) D d) g = Some ss \<and>
           distinct (map username ss)"
proof -
  from assms(2) obtain G0 where G0: "gm g = Some G0" by blast
  from assms(3) G0 have "\<exists>G gd. mergeGames gm D d g = Some (mergeGame (Some G) gd d)"
    by (rule mergeGames_established)
  then obtain G gd where "mergeGames gm D d g = Some (mergeGame (Some G) gd d)" by blast
  with mergeGame_distinct [of G gd d] show ?thesis
    by (simp add: gameScores_merged [OF assms(1)])
qed

text \<open>The theorem at the stored record and a day that spells a known user in capitals.\<close>

theorem one_entry_per_exact_username_witness:
  "games ex_existing = Some [''pirates'' \<mapsto>
        \<lparr>topAvatar = Some ''a1.png'',
         scores = [\<lparr>rank = 1, username = ''Ariel'', score = 100, achievedOn = Some ''2024-03-01''\<rparr>],
         gameName = ''Pirates of the Caribbean''\<rparr>] \<and>
   ''pirates'' \<in> fst ` set cx_case \<and>
   (\<exists>ss. gameScores (updateAllTimeScores (Parsed ex_existing) cx_case ''2024-03-02'') ''pirates''
            = Some ss \<and> distinct (map username ss))"
proof -
  have h1: "games ex_existing = Some [''pirates'' \<mapsto>
        \<lparr>topAvatar = Some ''a1.png'',
         scores = [\<lparr>rank = 1, username = ''Ariel'', score = 100, achievedOn = Some ''2024-03-01''\<rparr>],
         gameName = ''Pirates of the Caribbean''\<rparr>]" by (simp add: ex_existing_def)
  have h2: "''pirates'' \<in> dom [''pirates'' \<mapsto>
        \<lparr>topAvatar = Some ''a1.png'',
         scores = [\<lparr>rank = 1, username = ''Ariel'', score = 100, achievedOn = Some ''2024-03-01''\<rparr>],
         gameName = ''Pirates of the Caribbean''\<rparr>]" by simp
  have h3: "''pirates'' \<in> fst ` set cx_case" by (simp add: cx_case_def)
  from one_entry_per_exact_username [OF h1 h2 h3] h1 h3 show ?thesis by blast
qed

text \<open>Two usernames that differ only in letter case are two keys of the map.\<close>

theorem case_insensitive_usernames_counterexample:
  "map_option (map username)
     (gameScores (updateAllTimeScores (Parsed ex_existing) cx_case ''2024-03-02'') ''pirates'') =
     Some [''Ariel'', ''ARIEL''] \<and>
   toLowerCase ''Ariel'' = toLowerCase ''ARIEL''"
proof
  show "map_option (map username)
     (gameScores (updateAllTimeScores (Parsed ex_existing) cx_case ''2024-03-02'') ''pirates'') =
     Some [''Ariel'', ''ARIEL'']"
    by (simp add: ex_existing_def cx_case_def eval_merge)
  show "toLowerCase ''Ariel'' = toLowerCase ''ARIEL''"
    by code_simp
qed




section \<open>Claims about the dashboard and the user index\<close>

text \<open>
  C5. For every game of the dashboard and every user, the map that \<^verbatim>\<open>aggregateScores\<close>
  builds holds the user's best score over the selected blocks of all supplied days, with
  the date of the first day on which that score was seen; a stored best is replaced only
  by a strictly greater score. The list returned for the game has at most 10 entries, is
  sorted by non-increasing score, is ranked 1, 2, ..., has one entry per user, consists of
  bests, and every user left out has a best that is not above any listed score. In
  particular, with yesterday scores 100, 250 and 180 for Ariel on three successive days
  (180 behind Belle's 250 on the third), Ariel's best is 250, dated the second day, and the
  returned list has Ariel with 250 first.
\<close>

theorem aggregate_best_per_user:
  "(let obs = observations snapshots scoreType gameId;
        out = scores (aggregateGame snapshots scoreType gameId)
    in Map_get (userBestScores snapshots scoreType gameId) user = bestOf obs user \<and>
       Map_get (bestStep d m e) (username e) =
         Some (case Map_get m (username e) of
                 None \<Rightarrow> \<lparr>bestUsername = username e, bestScore = score e, bestDate = d\<rparr>
               | Some b \<Rightarrow>
                   if bestScore b < score e
                   then \<lparr>bestUsername = username e, bestScore = score e, bestDate = d\<rparr>
                   else b) \<and>
       (gameId \<in> set GAMES \<longrightarrow>
          map_of (aggregateScores snapshots scoreType) gameId =
            Some (aggregateGame snapshots scoreType gameId)) \<and>
       length out \<le> 10 \<and>
       sorted_wrt (\<lambda>a b. score b \<le> score a) out \<and>
       map rank out = [1 ..< Suc (length out)] \<and>
       distinct (map username out) \<and>
       (\<forall>x \<in> set out. \<exists>b. bestOf obs (username x) = Some b \<and> bestScore b = score x) \<and>
       (\<forall>u b. bestOf obs u = Some b \<and> u \<notin> username ` set out \<longrightarrow>
          length out = 10 \<and> (\<forall>x \<in> set out. bestScore b \<le> score x))) \<and>
   Map_get (userBestScores ex_days Yesterday ''pirates'') ''Ariel'' =
     Some \<lparr>bestUsername = ''Ariel'', bestScore = 250, bestDate = ''2024-03-02''\<rparr> \<and>
   map_option scores (map_of (aggregateScores ex_days Yesterday) ''pirates'') =
     Some [\<lparr>rank = 1, username = ''Ariel'', score = 250, achievedOn = None\<rparr>,
           \<lparr>rank = 2, username = ''Belle'', score = 250, achievedOn = None\<rparr>]"
proof -
  have ex1: "Map_get (userBestScores ex_days Yesterday ''pirates'') ''Ariel'' =
     Some \<lparr>bestUsername = ''Ariel'', bestScore = 250, bestDate = ''2024-03-02''\<rparr>"
    by (simp add: ariel_best)
  have "''pirates'' \<in> set GAMES" by (simp add: GAMES_def)
  then have ex2: "map_option scores (map_of (aggregateScores ex_days Yesterday) ''pirates'') =
     Some [\<lparr>rank = 1, username = ''Ariel'', score = 250, achievedOn = None\<rparr>,
           \<lparr>rank = 2, username = ''Belle'', score = 250, achievedOn = None\<rparr>]"
    by (simp add: aggregateScores_lookup ariel_aggregate)
  have excl: "\<forall>u b. bestOf (observations snapshots scoreType gameId) u = Some b \<and>
        u \<notin> username ` set (scores (aggregateGame snapshots scoreType gameId)) \<longrightarrow>
        length (scores (aggregateGame snapshots scoreType gameId)) = 10 \<and>
        (\<forall>x \<in> set (scores (aggregateGame snapshots scoreType gameId)). bestScore b \<le> score x)"
    using aggregate_excluded by blast
  have memb: "\<forall>x \<in> set (scores (aggregateGame snapshots scoreType gameId)).
        \<exists>b. bestOf (observations snapshots scoreType gameId) (username x) = Some b \<and>
            bestScore b = score x"
    using aggregate_members by blast
  show ?thesis
    unfolding Let_def
    by (intro conjI impI userBestScores_bestOf bestStep_same aggregateScores_lookup
        aggregate_shape excl memb ex1 ex2)
qed

text \<open>The general part of the theorem at the three days of the example.\<close>

theorem aggregate_best_per_user_witness:
  "''pirates'' \<in> set GAMES \<and>
   bestOf (observations ex_days Yesterday ''pirates'') ''Ariel'' =
     Some \<lparr>bestUsername = ''Ariel'', bestScore = 250, bestDate = ''2024-03-02''\<rparr> \<and>
   bestOf (observations ex_days Yesterday ''pirates'') ''Belle'' =
     Some \<lparr>bestUsername = ''Belle'', bestScore = 250, bestDate = ''2024-03-03''\<rparr> \<and>
   map_of (aggregateScores ex_days Yesterday) ''pirates'' =
     Some (aggregateGame ex_days Yesterday ''pirates'')"
proof -
  have g: "''pirates'' \<in> set GAMES" by (simp add: GAMES_def)
  note inst = aggregate_best_per_user [of ex_days Yesterday "''pirates''", unfolded Let_def]
  from inst [of "''Ariel''"]
  have a: "bestOf (observations ex_days Yesterday ''pirates'') ''Ariel'' =
     Some \<lparr>bestUsername = ''Ariel'', bestScore = 250, bestDate = ''2024-03-02''\<rparr>"
    by (simp add: ariel_best)
  from inst [of "''Belle''"]
  have b: "bestOf (observations ex_days Yesterday ''pirates'') ''Belle'' =
     Some \<lparr>bestUsername = ''Belle'', bestScore = 250, bestDate = ''2024-03-03''\<rparr>"
    by (simp add: ariel_best)
  from inst [of "''Ariel''"] g
  have c: "map_of (aggregateScores ex_days Yesterday) ''pirates'' =
     Some (aggregateGame ex_days Yesterday ''pirates'')" by blast
  from g a b c show ?thesis by simp
qed

text \<open>
  C6. The month query is specified to aggregate the snapshots of the days from the 1st of
  the reference date's month through the day before the reference date. The list of dates
  that the code builds ends with the reference date itself, and its snapshot is loaded: on
  March 2nd, with the snapshot of March 2nd as the only file, the days through March 1st
  give nothing to aggregate, and the query returns the yesterday block of the snapshot of
  March 2nd.
\<close>

theorem month_query_loads_reference_date:
  "getCurrentMonthDates 2024 3 2 = [''2024-03-01'', ''2024-03-02''] \<and>
   map_option (map (\<lambda>r. (fst r, map username (scores (snd r)))))
     (getScoresForPeriod_month cx_files Map.empty 2024 3 2) =
     Some [(''castle-fireworks'', []), (''pirates'', [''Ariel'']),
           (''haunted-mansion'', []), (''jungle-cruise'', [])]"
proof
  show dates: "getCurrentMonthDates 2024 3 2 = [''2024-03-01'', ''2024-03-02'']"
    by (rule month_dates_example)
  show "map_option (map (\<lambda>r. (fst r, map username (scores (snd r)))))
     (getScoresForPeriod_month cx_files Map.empty 2024 3 2) =
     Some [(''castle-fireworks'', []), (''pirates'', [''Ariel'']),
           (''haunted-mansion'', []), (''jungle-cruise'', [])]"
    unfolding getScoresForPeriod_month_def dates
    by (simp add: loadMultipleDays_def loadDailyData_def List.map_filter_def cx_files_def
        aggregateScores_def GAMES_def aggregateGame_def sortedTop10_def userBestScores_def
        bestDay_def bestStep_def gameOf_def sourceScores_def scoresOf_def ex_day_def
        Map_values_def Let_def)
qed

text \<open>
  C7 (as amended). For snapshots whose period blocks of the game list their rank-1 entry
  first, \<^verbatim>\<open>findAvatarForUser\<close> scans the snapshots in the supplied order and, within a
  snapshot, the period blocks in the order highscores, yesterday, today when highscores are
  prioritized and yesterday, today, highscores otherwise; it returns the avatar of the first
  block whose rank-1 entry's username equals the queried one exactly, and nothing when no
  block matches.
\<close>

theorem avatar_resolver_scan_order:
  assumes "list_all rankOneFirst (candidateBlocks snapshots gameId prioritizeHighscores)"
  shows "findAvatarForUser snapshots gameId user prioritizeHighscores =
           resolveAvatar snapshots gameId user prioritizeHighscores"
proof -
  let ?blocks = "candidateBlocks snapshots gameId prioritizeHighscores"
  have "find (\<lambda>b. firstUsername b = Some user) ?blocks =
        find (\<lambda>b. map_option username (rankOneEntry b) = Some user) ?blocks"
  proof (rule find_cong [OF refl])
    fix b assume "b \<in> set ?blocks"
    with assms have "rankOneFirst b" by (simp add: list_all_iff)
    then show "(firstUsername b = Some user) =
               (map_option username (rankOneEntry b) = Some user)"
      by (simp only: rankOneFirst_username)
  qed
  then show ?thesis by (simp only: findAvatarForUser_find resolveAvatar_def)
qed

text \<open>
  Two snapshots: the priority decides within the second one, the first one is skipped for
  a user who leads none of its blocks, and a username in another letter case matches nothing.
\<close>

theorem avatar_resolver_scan_order_witness:
  "list_all rankOneFirst (candidateBlocks [ex_dayA, ex_dayB] ''pirates'' True) \<and>
   list_all rankOneFirst (candidateBlocks [ex_dayA, ex_dayB] ''pirates'' False) \<and>
   findAvatarForUser [ex_dayA, ex_dayB] ''pirates'' ''Ariel'' True = Some ''x.png'' \<and>
   findAvatarForUser [ex_dayA, ex_dayB] ''pirates'' ''Ariel'' False = Some ''y.png'' \<and>
   findAvatarForUser [ex_dayA, ex_dayB] ''pirates'' ''Belle'' False = Some ''z.png'' \<and>
   findAvatarForUser [ex_dayA, ex_dayB] ''pirates'' ''ariel'' False = None"
proof -
  have t: "list_all rankOneFirst (candidateBlocks [ex_dayA, ex_dayB] ''pirates'' True)"
    and f: "list_all rankOneFirst (candidateBlocks [ex_dayA, ex_dayB] ''pirates'' False)"
    by (simp_all add: rankOneFirst_def candidateBlocks_def ex_dayA_def ex_dayB_def gameOf_def)
  have "resolveAvatar [ex_dayA, ex_dayB] ''pirates'' ''Ariel'' True = Some ''x.png''"
    "resolveAvatar [ex_dayA, ex_dayB] ''pirates'' ''Ariel'' False = Some ''y.png''"
    "resolveAvatar [ex_dayA, ex_dayB] ''pirates'' ''Belle'' False = Some ''z.png''"
    "resolveAvatar [ex_dayA, ex_dayB] ''pirates'' ''ariel'' False = None"
    by (simp_all add: resolveAvatar_def candidateBlocks_def ex_dayA_def ex_dayB_def gameOf_def
        rankOneEntry_def)
  then have "findAvatarForUser [ex_dayA, ex_dayB] ''pirates'' ''Ariel'' True = Some ''x.png''"
    "findAvatarForUser [ex_dayA, ex_dayB] ''pirates'' ''Ariel'' False = Some ''y.png''"
    "findAvatarForUser [ex_dayA, ex_dayB] ''pirates'' ''Belle'' False = Some ''z.png''"
    "findAvatarForUser [ex_dayA, ex_dayB] ''pirates'' ''ariel'' False = None"
    by (simp_all only: avatar_resolver_scan_order [OF t] avatar_resolver_scan_order [OF f])
  with t f show ?thesis by (intro conjI)
qed

text \<open>
  C7 as stated, for every list of snapshots: a block whose first list item did not parse
  starts with the entry of rank 2. \<^verbatim>\<open>findAvatarForUser\<close> compares the first entry of the
  block and returns the block's avatar for that user, who is not its rank-1 entry.
\<close>

theorem avatar_resolver_scan_order_counterexample:
  "candidateBlocks [cx_gapDay] ''pirates'' False =
     [Some \<lparr>blockAvatar = Some ''w.png'',
            blockScores = Some [\<lparr>rank = 2, username = ''Ariel'', score = 300, achievedOn = None\<rparr>]\<rparr>,
      Some \<lparr>blockAvatar = None, blockScores = Some []\<rparr>,
      Some \<lparr>blockAvatar = None, blockScores = Some []\<rparr>] \<and>
   findAvatarForUser [cx_gapDay] ''pirates'' ''Ariel'' False = Some ''w.png'' \<and>
   resolveAvatar [cx_gapDay] ''pirates'' ''Ariel'' False = None"
  by (simp add: findAvatarForUser_def periods_def firstUsername_def scoresOf_def gameOf_def
      resolveAvatar_def candidateBlocks_def rankOneEntry_def cx_gapDay_def)



end
